theory Spec2Isabelle
  imports Main
begin

section \<open>Data model (src/models/schemas.py)\<close>

text \<open>
  Python strings are \<open>string\<close>; an \<open>Optional[str]\<close> is a \<open>string option\<close>; a
  \<open>datetime\<close> is an integer count of microseconds. Field names follow the source; where
  two classes share a field name, or the name is reserved in Isabelle, the name carries a
  prefix: \<open>Tag.value\<close> is \<open>tvalue\<close>, \<open>GroupingCondition.value\<close> is \<open>cvalue\<close>,
  \<open>Asset.type\<close> is \<open>atype\<close>, \<open>Asset.id\<close> is \<open>a_id\<close>, \<open>CloudAccount.id/name\<close> are \<open>ca_id\<close>/\<open>ca_name\<close> and
  the fields of \<open>GroupingRule\<close> carry the prefix \<open>rule_\<close> where \<open>Asset\<close> has the same
  field.
\<close>

datatype operator = EQUALS | CONTAINS | EXISTS

record tag =
  key :: string
  tvalue :: string

record cloud_account =
  ca_id :: string
  ca_name :: string

record asset =
  name :: string
  atype :: string
  tags :: "tag list"
  cloud_account :: cloud_account
  owner_id :: string
  region :: string
  a_id :: "string option"
  group_name :: "string option"
  created_at :: "int option"
  updated_at :: "int option"

record condition =
  field :: string
  operator :: operator
  cvalue :: "string option"
  tag_key :: "string option"
  tag_value :: "string option"

text \<open>
  \<open>fields_set\<close> is pydantic's \<open>model_fields_set\<close>: the names of the fields that were
  passed to the constructor. \<open>model_dump(exclude_unset=True)\<close> reads it.
\<close>

record rule =
  rule_group_name :: string
  conditions :: "condition list"
  description :: "string option"
  rule_id :: "string option"
  rule_created_at :: "int option"
  rule_updated_at :: "int option"
  fields_set :: "string list"

datatype error = TypeError | ValidationError

section \<open>Python primitives used by the service\<close>

text \<open>\<open>x in s\<close> for two strings: \<open>x\<close> occurs in \<open>s\<close> as a contiguous run of characters.\<close>

fun starts_with :: "string \<Rightarrow> string \<Rightarrow> bool" where
  "starts_with [] s = True"
| "starts_with (x # xs) [] = False"
| "starts_with (x # xs) (c # s) = (x = c \<and> starts_with xs s)"

fun str_contains :: "string \<Rightarrow> string \<Rightarrow> bool" where
  "str_contains x [] = (x = [])"
| "str_contains x (c # s) = (starts_with x (c # s) \<or> str_contains x s)"

text \<open>
  \<open>v in s\<close> where \<open>v\<close> is an \<open>Optional[str]\<close>: with \<open>v = None\<close> Python raises
  \<open>TypeError\<close> ('in <string>' requires string as left operand, not NoneType).
\<close>

fun py_in :: "string option \<Rightarrow> string \<Rightarrow> error + bool" where
  "py_in None s = Inl TypeError"
| "py_in (Some v) s = Inr (str_contains v s)"

text \<open>Truth value of an \<open>Optional[str]\<close>: \<open>None\<close> and the empty string are false.\<close>

fun truthy :: "string option \<Rightarrow> bool" where
  "truthy None = False"
| "truthy (Some g) = (g \<noteq> [])"

text \<open>
  A Python \<open>dict\<close> is an association list in insertion order. \<open>d.get(k)\<close> is
  \<open>dict_get\<close>; \<open>d[k] = v\<close> is \<open>dict_set\<close>: an existing key keeps its position, a new
  key goes to the end; \<open>k in d\<close> is \<open>dict_get d k \<noteq> None\<close>.
\<close>

fun dict_get :: "('k \<times> 'v) list \<Rightarrow> 'k \<Rightarrow> 'v option" where
  "dict_get [] k = None"
| "dict_get ((k', v) # d) k = (if k' = k then Some v else dict_get d k)"

fun dict_set :: "('k \<times> 'v) list \<Rightarrow> 'k \<Rightarrow> 'v \<Rightarrow> ('k \<times> 'v) list" where
  "dict_set [] k v = [(k, v)]"
| "dict_set ((k', v') # d) k v = (if k' = k then (k, v) # d else (k', v') # dict_set d k v)"

section \<open>The rule evaluator (src/services/grouping.py)\<close>

text \<open>\<open>GroupingService._evaluate_condition\<close>.\<close>

definition evaluate_condition :: "asset \<Rightarrow> condition \<Rightarrow> error + bool" where
  "evaluate_condition a c =
     (if field c = ''type'' then
        (if operator c = EQUALS then Inr (Some (atype a) = cvalue c)
         else if operator c = CONTAINS then py_in (cvalue c) (atype a)
         else Inr False)
      else if field c = ''name'' then
        (if operator c = EQUALS then Inr (Some (name a) = cvalue c)
         else if operator c = CONTAINS then py_in (cvalue c) (name a)
         else Inr False)
      else if field c = ''tag'' then
        (if operator c = EXISTS then
           Inr (list_ex (\<lambda>t. Some (key t) = tag_key c) (tags a))
         else if operator c = EQUALS then
           Inr (list_ex (\<lambda>t. Some (key t) = tag_key c \<and> Some (tvalue t) = tag_value c) (tags a))
         else Inr False)
      else Inr False)"

text \<open>
  \<open>all(self._evaluate_condition(asset, c) for c in rule.conditions)\<close>: the generator is
  consumed from the left, stops at the first false condition, and an exception raised by a
  condition leaves \<open>all\<close>.
\<close>

fun all_conditions :: "asset \<Rightarrow> condition list \<Rightarrow> error + bool" where
  "all_conditions a [] = Inr True"
| "all_conditions a (c # cs) =
     (case evaluate_condition a c of
        Inl e \<Rightarrow> Inl e
      | Inr b \<Rightarrow> if b then all_conditions a cs else Inr False)"

text \<open>
  \<open>GroupingService._evaluate_rules\<close>, with \<open>self.rules\<close> as the first argument: the loop
  over \<open>self.rules.values()\<close> runs in insertion order.
\<close>

fun evaluate_rules :: "(string \<times> rule) list \<Rightarrow> asset \<Rightarrow> error + string option" where
  "evaluate_rules [] a = Inr None"
| "evaluate_rules ((k, r) # rs) a =
     (case all_conditions a (conditions r) of
        Inl e \<Rightarrow> Inl e
      | Inr b \<Rightarrow> if b then Inr (Some (rule_group_name r)) else evaluate_rules rs a)"

section \<open>The grouping store (src/services/grouping.py)\<close>

text \<open>
  \<open>GroupingService\<close> owns \<open>self.assets\<close> and \<open>self.rules\<close>. The wall clock is outside the
  service: \<open>clk n\<close> is what the \<open>n\<close>-th call of \<open>datetime.now(UTC)\<close> returns, and
  \<open>reads\<close> counts the calls made so far. \<open>uuid.uuid4()\<close> is outside too: the operations
  that create a record take the generated identifier as an argument.
\<close>

record service =
  assets :: "(string \<times> asset) list"
  rules :: "(string \<times> rule) list"
  reads :: nat

definition init :: service where
  "init = \<lparr>assets = [], rules = [], reads = 0\<rparr>"

text \<open>
  \<open>GroupingService.create_asset\<close>. \<open>asset.model_dump(exclude={id, group_name, created_at,
  updated_at})\<close> drops the four internal fields of the payload, so the new asset has the
  payload's six public fields, the generated id, both timestamps and no group.
\<close>

definition create_asset ::
  "(nat \<Rightarrow> int) \<Rightarrow> string \<Rightarrow> asset \<Rightarrow> service \<Rightarrow> (error + asset) \<times> service" where
  "create_asset clk asset_id a s =
     (let now = clk (reads s);
          s1 = s\<lparr>reads := Suc (reads s)\<rparr>;
          new_asset = a\<lparr>a_id := Some asset_id, group_name := None,
                        created_at := Some now, updated_at := Some now\<rparr>
      in case evaluate_rules (rules s1) new_asset of
           Inl e \<Rightarrow> (Inl e, s1)
         | Inr g \<Rightarrow>
             let stored = (if truthy g then new_asset\<lparr>group_name := g\<rparr> else new_asset)
             in (Inr stored, s1\<lparr>assets := dict_set (assets s1) asset_id stored\<rparr>))"

text \<open>\<open>GroupingService.get_asset\<close>.\<close>

definition get_asset :: "string \<Rightarrow> service \<Rightarrow> asset option" where
  "get_asset asset_id s = dict_get (assets s) asset_id"

text \<open>
  \<open>GroupingService.update_asset\<close>. \<open>current_data.update(update_data)\<close> overwrites the six
  public fields with the payload's (the dump has no \<open>exclude_unset\<close>); \<open>id\<close>,
  \<open>created_at\<close> and \<open>updated_at\<close> are then set, and \<open>group_name\<close> is the stored one until
  the result of \<open>_evaluate_rules\<close> is assigned.
\<close>

definition update_asset ::
  "(nat \<Rightarrow> int) \<Rightarrow> string \<Rightarrow> asset \<Rightarrow> service \<Rightarrow> (error + asset option) \<times> service" where
  "update_asset clk asset_id a s =
     (case dict_get (assets s) asset_id of
        None \<Rightarrow> (Inr None, s)
      | Some current_asset \<Rightarrow>
          (let now = clk (reads s);
               s1 = s\<lparr>reads := Suc (reads s)\<rparr>;
               merged = a\<lparr>a_id := Some asset_id, group_name := group_name current_asset,
                          created_at := created_at current_asset, updated_at := Some now\<rparr>
           in (case evaluate_rules (rules s1) merged of
                 Inl e \<Rightarrow> (Inl e, s1)
               | Inr g \<Rightarrow>
                   (let updated_asset = merged\<lparr>group_name := g\<rparr>
                    in (Inr (Some updated_asset),
                        s1\<lparr>assets := dict_set (assets s1) asset_id updated_asset\<rparr>)))))"

text \<open>
  \<open>GroupingService._process_existing_assets\<close>: the loop over \<open>self.assets.values()\<close>. The
  arguments are the rules, the number of clock reads so far and the assets still to visit;
  the result carries the assets as the loop left them (up to the raising one when a
  condition raises) and the new number of clock reads.
\<close>

fun process_assets ::
  "(nat \<Rightarrow> int) \<Rightarrow> (string \<times> rule) list \<Rightarrow> nat \<Rightarrow> (string \<times> asset) list
     \<Rightarrow> (error + unit) \<times> (string \<times> asset) list \<times> nat" where
  "process_assets clk rs n [] = (Inr (), [], n)"
| "process_assets clk rs n ((k, a) # xs) =
     (if \<not> truthy (group_name a) then
        (case evaluate_rules rs a of
           Inl e \<Rightarrow> (Inl e, (k, a) # xs, n)
         | Inr g \<Rightarrow>
             if truthy g then
               (case process_assets clk rs (Suc n) xs of
                  (r, xs', n') \<Rightarrow>
                    (r, (k, a\<lparr>group_name := g, updated_at := Some (clk n)\<rparr>) # xs', n'))
             else
               (case process_assets clk rs n xs of (r, xs', n') \<Rightarrow> (r, (k, a) # xs', n')))
      else
        (case process_assets clk rs n xs of (r, xs', n') \<Rightarrow> (r, (k, a) # xs', n')))"

definition process_existing_assets ::
  "(nat \<Rightarrow> int) \<Rightarrow> service \<Rightarrow> (error + unit) \<times> service" where
  "process_existing_assets clk s =
     (case process_assets clk (rules s) (reads s) (assets s) of
        (r, xs, n) \<Rightarrow> (r, s\<lparr>assets := xs, reads := n\<rparr>))"

text \<open>
  \<open>GroupingService.create_rule\<close>. The constructor receives all six fields by keyword, so
  all six are in the new rule's \<open>fields_set\<close>.
\<close>

definition create_rule ::
  "(nat \<Rightarrow> int) \<Rightarrow> string \<Rightarrow> rule \<Rightarrow> service \<Rightarrow> (error + rule) \<times> service" where
  "create_rule clk new_id r s =
     (let now = clk (reads s);
          s1 = s\<lparr>reads := Suc (reads s)\<rparr>;
          new_rule = r\<lparr>rule_id := Some new_id, rule_created_at := Some now,
                       rule_updated_at := Some now,
                       fields_set := [''id'', ''created_at'', ''updated_at'',
                                      ''group_name'', ''conditions'', ''description'']\<rparr>;
          s2 = s1\<lparr>rules := dict_set (rules s1) new_id new_rule\<rparr>
      in case process_existing_assets clk s2 of
           (Inl e, s3) \<Rightarrow> (Inl e, s3)
         | (Inr u, s3) \<Rightarrow> (Inr new_rule, s3))"

subsection \<open>Keyword arguments of the rule constructor\<close>

text \<open>
  \<open>update_rule\<close> calls \<open>GroupingRule(**current_rule.model_dump(), **update_data,
  updated_at=datetime.now(UTC))\<close>. Python builds the keyword dictionary from left to right
  and raises \<open>TypeError\<close> (got multiple values for keyword argument) at the first key that
  is already there.
\<close>

text \<open>
  The keyword dictionaries of this call are built from \<open>model_dump()\<close> of validated rules
  and from a \<open>datetime\<close>, so every value has the type of its field: a keyword argument is
  a field of \<open>GroupingRule\<close> together with a value of that field's type.
\<close>

datatype kwarg =
    K_group_name string
  | K_conditions "condition list"
  | K_description "string option"
  | K_id "string option"
  | K_created_at "int option"
  | K_updated_at "int option"

fun key_of :: "kwarg \<Rightarrow> string" where
  "key_of (K_group_name g) = ''group_name''"
| "key_of (K_conditions cs) = ''conditions''"
| "key_of (K_description d) = ''description''"
| "key_of (K_id i) = ''id''"
| "key_of (K_created_at t) = ''created_at''"
| "key_of (K_updated_at t) = ''updated_at''"

text \<open>\<open>rule.model_dump()\<close>: every field, in declaration order.\<close>

definition model_dump :: "rule \<Rightarrow> kwarg list" where
  "model_dump r =
     [K_group_name (rule_group_name r),
      K_conditions (conditions r),
      K_description (description r),
      K_id (rule_id r),
      K_created_at (rule_created_at r),
      K_updated_at (rule_updated_at r)]"

text \<open>\<open>rule.model_dump(exclude={id, created_at, updated_at}, exclude_unset=True)\<close>.\<close>

definition model_dump_update :: "rule \<Rightarrow> kwarg list" where
  "model_dump_update r =
     filter (\<lambda>x. key_of x \<notin> {''id'', ''created_at'', ''updated_at''}
                 \<and> key_of x \<in> set (fields_set r))
       (model_dump r)"

fun kwargs_merge :: "kwarg list \<Rightarrow> kwarg list \<Rightarrow> error + kwarg list" where
  "kwargs_merge kw [] = Inr kw"
| "kwargs_merge kw (x # rest) =
     (if key_of x \<in> set (map key_of kw) then Inl TypeError
      else kwargs_merge (kw @ [x]) rest)"

text \<open>
  \<open>GroupingRule(**kw)\<close>: \<open>group_name\<close> and \<open>conditions\<close> are required, and a call without
  one of them is a validation error; the other fields default to \<open>None\<close>. The fields set
  are the keys given.
\<close>

fun kw_group_name :: "kwarg list \<Rightarrow> string option" where
  "kw_group_name [] = None"
| "kw_group_name (K_group_name g # kw) = Some g"
| "kw_group_name (x # kw) = kw_group_name kw"

fun kw_conditions :: "kwarg list \<Rightarrow> condition list option" where
  "kw_conditions [] = None"
| "kw_conditions (K_conditions cs # kw) = Some cs"
| "kw_conditions (x # kw) = kw_conditions kw"

fun kw_description :: "kwarg list \<Rightarrow> string option" where
  "kw_description [] = None"
| "kw_description (K_description d # kw) = d"
| "kw_description (x # kw) = kw_description kw"

fun kw_id :: "kwarg list \<Rightarrow> string option" where
  "kw_id [] = None"
| "kw_id (K_id i # kw) = i"
| "kw_id (x # kw) = kw_id kw"

fun kw_created_at :: "kwarg list \<Rightarrow> int option" where
  "kw_created_at [] = None"
| "kw_created_at (K_created_at t # kw) = t"
| "kw_created_at (x # kw) = kw_created_at kw"

fun kw_updated_at :: "kwarg list \<Rightarrow> int option" where
  "kw_updated_at [] = None"
| "kw_updated_at (K_updated_at t # kw) = t"
| "kw_updated_at (x # kw) = kw_updated_at kw"

definition GroupingRule :: "kwarg list \<Rightarrow> error + rule" where
  "GroupingRule kw =
     (case (kw_group_name kw, kw_conditions kw) of
        (Some g, Some cs) \<Rightarrow>
          Inr \<lparr>rule_group_name = g, conditions = cs, description = kw_description kw,
               rule_id = kw_id kw, rule_created_at = kw_created_at kw,
               rule_updated_at = kw_updated_at kw, fields_set = map key_of kw\<rparr>
      | other \<Rightarrow> Inl ValidationError)"

text \<open>
  \<open>GroupingService.update_rule\<close>. The clock is read after the first two dictionaries are
  merged and before the \<open>updated_at\<close> keyword is added.
\<close>

definition update_rule ::
  "(nat \<Rightarrow> int) \<Rightarrow> string \<Rightarrow> rule \<Rightarrow> service \<Rightarrow> (error + rule option) \<times> service" where
  "update_rule clk rid r s =
     (case dict_get (rules s) rid of
        None \<Rightarrow> (Inr None, s)
      | Some current_rule \<Rightarrow>
          let update_data = model_dump_update r in
          (case kwargs_merge (model_dump current_rule) update_data of
             Inl e \<Rightarrow> (Inl e, s)
           | Inr kw1 \<Rightarrow>
               let now = clk (reads s);
                   s1 = s\<lparr>reads := Suc (reads s)\<rparr>
               in (case kwargs_merge kw1 [K_updated_at (Some now)] of
                     Inl e \<Rightarrow> (Inl e, s1)
                   | Inr kw \<Rightarrow>
                       (case GroupingRule kw of
                          Inl e \<Rightarrow> (Inl e, s1)
                        | Inr updated_rule \<Rightarrow>
                            let s2 = s1\<lparr>rules := dict_set (rules s1) rid updated_rule\<rparr>
                            in (case process_existing_assets clk s2 of
                                  (Inl e, s3) \<Rightarrow> (Inl e, s3)
                                | (Inr u, s3) \<Rightarrow> (Inr (Some updated_rule), s3))))))"

section \<open>Sequences of operations\<close>

text \<open>
  A client's call, with the identifier that \<open>uuid.uuid4()\<close> produced where the operation
  generates one. \<open>step\<close> is the store after the call, whether it returned or raised;
  \<open>run\<close> performs the calls from left to right.
\<close>

datatype op =
    CreateAsset string asset
  | UpdateAsset string asset
  | CreateRule string rule
  | UpdateRule string rule
  | Reprocess

fun step :: "(nat \<Rightarrow> int) \<Rightarrow> op \<Rightarrow> service \<Rightarrow> service" where
  "step clk (CreateAsset k a) s = snd (create_asset clk k a s)"
| "step clk (UpdateAsset k a) s = snd (update_asset clk k a s)"
| "step clk (CreateRule k r) s = snd (create_rule clk k r s)"
| "step clk (UpdateRule k r) s = snd (update_rule clk k r s)"
| "step clk Reprocess s = snd (process_existing_assets clk s)"

fun run :: "(nat \<Rightarrow> int) \<Rightarrow> op list \<Rightarrow> service \<Rightarrow> service" where
  "run clk [] s = s"
| "run clk (x # xs) s = run clk xs (step clk x s)"

text \<open>
  The identifiers generated for new assets are new: no \<open>CreateAsset\<close> of the sequence
  receives an identifier that is a key of the asset dictionary at that moment.
\<close>

fun fresh_ids :: "(nat \<Rightarrow> int) \<Rightarrow> op list \<Rightarrow> service \<Rightarrow> bool" where
  "fresh_ids clk [] s = True"
| "fresh_ids clk (x # xs) s =
     ((case x of CreateAsset k a \<Rightarrow> dict_get (assets s) k = None | other \<Rightarrow> True)
      \<and> fresh_ids clk xs (step clk x s))"

text \<open>
  The timestamp invariant of a store under a clock: every stored asset was created at a
  clock reading that has been taken, and was last updated no earlier than that.
\<close>

definition stamps_ok :: "(nat \<Rightarrow> int) \<Rightarrow> service \<Rightarrow> bool" where
  "stamps_ok clk s \<longleftrightarrow>
     (\<forall>k a. dict_get (assets s) k = Some a
        \<longrightarrow> (\<exists>m u. m < reads s \<and> created_at a = Some (clk m) \<and> updated_at a = Some u
                  \<and> clk m \<le> u))"

section \<open>Inputs of the test suite (tests/conftest.py, tests/services/test_grouping.py)\<close>

definition tick_clock :: "nat \<Rightarrow> int" where
  "tick_clock n = int n"

definition sample_asset :: asset where
  "sample_asset =
     \<lparr>name = ''test-instance-prod'', atype = ''ec2-instance'',
      tags = [\<lparr>key = ''env'', tvalue = ''prod''\<rparr>, \<lparr>key = ''team'', tvalue = ''platform''\<rparr>],
      cloud_account = \<lparr>ca_id = ''123'', ca_name = ''main''\<rparr>,
      owner_id = ''user1'', region = ''us-east-1'',
      a_id = None, group_name = None, created_at = None, updated_at = None\<rparr>"

definition cond_type :: condition where
  "cond_type = \<lparr>field = ''type'', operator = EQUALS, cvalue = Some ''ec2-instance'',
                 tag_key = None, tag_value = None\<rparr>"

definition cond_name :: condition where
  "cond_name = \<lparr>field = ''name'', operator = CONTAINS, cvalue = Some ''prod'',
                 tag_key = None, tag_value = None\<rparr>"

definition cond_tag :: condition where
  "cond_tag = \<lparr>field = ''tag'', operator = EQUALS, cvalue = None,
                tag_key = Some ''env'', tag_value = Some ''prod''\<rparr>"

definition sample_rule :: rule where
  "sample_rule =
     \<lparr>rule_group_name = ''production-instances'', conditions = [cond_type, cond_tag],
      description = Some ''Production EC2 instances'',
      rule_id = None, rule_created_at = None, rule_updated_at = None,
      fields_set = [''group_name'', ''description'', ''conditions'']\<rparr>"

definition complex_rule :: rule where
  "complex_rule =
     \<lparr>rule_group_name = ''production-instances'',
      conditions = [cond_type, cond_name, cond_tag],
      description = Some ''Production Instances'',
      rule_id = None, rule_created_at = None, rule_updated_at = None,
      fields_set = [''group_name'', ''description'', ''conditions'']\<rparr>"

definition asset_two :: asset where
  "asset_two =
     \<lparr>name = ''dev-instance'', atype = ''ec2-instance'',
      tags = [\<lparr>key = ''env'', tvalue = ''dev''\<rparr>],
      cloud_account = \<lparr>ca_id = ''123'', ca_name = ''main''\<rparr>,
      owner_id = ''user1'', region = ''us-east-1'',
      a_id = None, group_name = None, created_at = None, updated_at = None\<rparr>"

text \<open>
  Further inputs: a condition and a rule that leave every optional field out
  (\<open>GroupingCondition(field="type", operator="contains")\<close>), a rule without conditions, and
  a rule whose group name is the empty string.
\<close>

definition cond_no_value :: condition where
  "cond_no_value = \<lparr>field = ''type'', operator = CONTAINS, cvalue = None,
                     tag_key = None, tag_value = None\<rparr>"

definition catch_all_rule :: rule where
  "catch_all_rule =
     \<lparr>rule_group_name = ''everything'', conditions = [], description = None,
      rule_id = None, rule_created_at = None, rule_updated_at = None,
      fields_set = [''group_name'', ''conditions'']\<rparr>"

definition unnamed_rule :: rule where
  "unnamed_rule =
     \<lparr>rule_group_name = [], conditions = [], description = None,
      rule_id = None, rule_created_at = None, rule_updated_at = None,
      fields_set = [''group_name'', ''conditions'']\<rparr>"

text \<open>
  Stores of the test suite: \<open>ungrouped_store\<close> holds the sample asset and no rule
  (\<open>test_auto_grouping_on_rule_creation\<close> before the rule is created), \<open>grouped_store\<close>
  holds the sample rule and then the sample asset
  (\<open>test_auto_grouping_on_asset_creation\<close>).
\<close>

definition ungrouped_store :: service where
  "ungrouped_store = snd (create_asset tick_clock ''a1'' sample_asset init)"

definition grouped_store :: service where
  "grouped_store =
     snd (create_asset tick_clock ''a1'' sample_asset
            (snd (create_rule tick_clock ''r1'' sample_rule init)))"

text \<open>
  Stores for the empty group name: \<open>unnamed_store\<close> holds one rule without conditions whose
  group name is the empty string, \<open>unnamed_asset_store\<close> the sample asset created after
  that rule, and \<open>stale_store\<close> an asset whose \<open>group_name\<close> is the empty string next to
  the sample rule.
\<close>

definition unnamed_store :: service where
  "unnamed_store = snd (create_rule tick_clock ''r0'' unnamed_rule init)"

definition unnamed_asset_store :: service where
  "unnamed_asset_store = snd (create_asset tick_clock ''a1'' sample_asset unnamed_store)"

definition stale_store :: service where
  "stale_store =
     \<lparr>assets = [(''a1'', sample_asset\<lparr>a_id := Some ''a1'', group_name := Some [],
                                      created_at := Some 0, updated_at := Some 1\<rparr>)],
      rules = [(''r1'', sample_rule)], reads = 2\<rparr>"

text \<open>
  A sequence of calls in two parts: the sample asset is created; then the sample rule is
  created and the asset is updated with the fields of the second asset of
  \<open>test_complex_rule_matching\<close>.
\<close>

definition history :: "op list" where
  "history = [CreateAsset ''a1'' sample_asset]"

definition continuation :: "op list" where
  "continuation = [CreateRule ''r1'' sample_rule, UpdateAsset ''a1'' asset_two]"

text \<open>
  Inputs with a \<open>contains\<close> condition that leaves \<open>value\<close> out:
  \<open>GroupingCondition(field="name", operator="contains")\<close>, a rule whose only condition is
  \<open>GroupingCondition(field="type", operator="contains")\<close>, and a rule for the development
  assets that asks for the tag \<open>env = dev\<close> and then has that condition.
\<close>

definition cond_name_no_value :: condition where
  "cond_name_no_value = \<lparr>field = ''name'', operator = CONTAINS, cvalue = None,
                          tag_key = None, tag_value = None\<rparr>"

definition valueless_rule :: rule where
  "valueless_rule =
     \<lparr>rule_group_name = ''typed-assets'', conditions = [cond_no_value], description = None,
      rule_id = None, rule_created_at = None, rule_updated_at = None,
      fields_set = [''group_name'', ''conditions'']\<rparr>"

definition cond_tag_dev :: condition where
  "cond_tag_dev = \<lparr>field = ''tag'', operator = EQUALS, cvalue = None,
                    tag_key = Some ''env'', tag_value = Some ''dev''\<rparr>"

definition dev_rule :: rule where
  "dev_rule =
     \<lparr>rule_group_name = ''dev-instances'', conditions = [cond_tag_dev, cond_no_value],
      description = None,
      rule_id = None, rule_created_at = None, rule_updated_at = None,
      fields_set = [''group_name'', ''conditions'']\<rparr>"

text \<open>
  Stores that hold such a rule. \<open>create_asset\<close> evaluates the rules before it stores the
  asset, so the asset is created first; \<open>create_rule\<close> stores the rule before the pass
  evaluates it, so the rule is kept although the call raises. \<open>valueless_store\<close> is the
  sample asset followed by \<open>valueless_rule\<close>; \<open>dev_store\<close> is the development asset and
  the sample asset followed by \<open>dev_rule\<close>.
\<close>

definition valueless_store :: service where
  "valueless_store =
     snd (create_rule tick_clock ''r0'' valueless_rule
            (snd (create_asset tick_clock ''a1'' sample_asset init)))"

definition dev_store :: service where
  "dev_store =
     snd (create_rule tick_clock ''r0'' dev_rule
            (snd (create_asset tick_clock ''a1'' sample_asset
                   (snd (create_asset tick_clock ''a0'' asset_two init)))))"

section \<open>Properties of the Python primitives\<close>

lemma starts_with_iff: "starts_with x s \<longleftrightarrow> (\<exists>q. s = x @ q)"
  by (induction x s rule: starts_with.induct) auto

lemma str_contains_iff: "str_contains x s \<longleftrightarrow> (\<exists>p q. s = p @ x @ q)"
proof (induction s)
  case Nil
  then show ?case by simp
next
  case (Cons c s)
  show ?case
  proof
    assume "str_contains x (c # s)"
    then consider "starts_with x (c # s)" | "str_contains x s" by auto
    then show "\<exists>p q. c # s = p @ x @ q"
    proof cases
      case 1
      then obtain q where "c # s = x @ q" using starts_with_iff by blast
      then have "c # s = [] @ x @ q" by simp
      then show ?thesis by blast
    next
      case 2
      then obtain p q where "s = p @ x @ q" using Cons.IH by blast
      then have "c # s = (c # p) @ x @ q" by simp
      then show ?thesis by blast
    qed
  next
    assume "\<exists>p q. c # s = p @ x @ q"
    then obtain p q where pq: "c # s = p @ x @ q" by blast
    show "str_contains x (c # s)"
    proof (cases p)
      case Nil
      then have "starts_with x (c # s)" using pq starts_with_iff by auto
      then show ?thesis by simp
    next
      case (Cons c' p')
      then have "s = p' @ x @ q" using pq by simp
      then have "str_contains x s" using Cons.IH by blast
      then show ?thesis by simp
    qed
  qed
qed

lemma dict_set_absent: "dict_get d k = None \<Longrightarrow> dict_set d k v = d @ [(k, v)]"
  by (induction d) (auto split: if_splits)

section \<open>Properties of the rule evaluator\<close>

text \<open>
  The evaluator raises in exactly one situation: a \<open>contains\<close> condition on \<open>type\<close> or
  \<open>name\<close> whose \<open>value\<close> is absent.
\<close>

lemma evaluate_condition_raises_iff:
  "evaluate_condition a c = Inl e \<longleftrightarrow>
     e = TypeError \<and> (field c = ''type'' \<or> field c = ''name'') \<and> operator c = CONTAINS \<and> cvalue c = None"
  by (cases "cvalue c"; cases e; auto simp: evaluate_condition_def)

lemma all_conditions_True_iff:
  "all_conditions a cs = Inr True \<longleftrightarrow> (\<forall>c\<in>set cs. evaluate_condition a c = Inr True)"
  by (induction cs) (auto split: sum.splits)

lemma evaluate_rules_None_iff:
  "evaluate_rules rs a = Inr None \<longleftrightarrow> (\<forall>p\<in>set rs. all_conditions a (conditions (snd p)) = Inr False)"
  by (induction rs a rule: evaluate_rules.induct) (auto split: sum.splits)

lemma evaluate_rules_append:
  "\<forall>p\<in>set pre. all_conditions a (conditions (snd p)) = Inr False \<Longrightarrow>
   evaluate_rules (pre @ rs) a = evaluate_rules rs a"
  by (induction pre a rule: evaluate_rules.induct) auto

lemma evaluate_rules_Some_iff:
  "evaluate_rules rs a = Inr (Some g) \<longleftrightarrow>
     (\<exists>pre k r post. rs = pre @ (k, r) # post
        \<and> (\<forall>p\<in>set pre. all_conditions a (conditions (snd p)) = Inr False)
        \<and> all_conditions a (conditions r) = Inr True \<and> g = rule_group_name r)"
proof
  show "evaluate_rules rs a = Inr (Some g) \<Longrightarrow>
     (\<exists>pre k r post. rs = pre @ (k, r) # post
        \<and> (\<forall>p\<in>set pre. all_conditions a (conditions (snd p)) = Inr False)
        \<and> all_conditions a (conditions r) = Inr True \<and> g = rule_group_name r)"
  proof (induction rs a rule: evaluate_rules.induct)
    case (1 a)
    then show ?case by simp
  next
    case (2 k r rs a)
    show ?case
    proof (cases "all_conditions a (conditions r)")
      case (Inl e)
      then show ?thesis using 2 by simp
    next
      case (Inr b)
      show ?thesis
      proof (cases b)
        case True
        then have "(k, r) # rs = [] @ (k, r) # rs" "g = rule_group_name r"
          using 2 Inr by auto
        then show ?thesis using Inr True by fastforce
      next
        case False
        then have "evaluate_rules rs a = Inr (Some g)" using 2 Inr by simp
        then obtain pre k' r' post where h: "rs = pre @ (k', r') # post"
          "\<forall>p\<in>set pre. all_conditions a (conditions (snd p)) = Inr False"
          "all_conditions a (conditions r') = Inr True" "g = rule_group_name r'"
          using 2 Inr False by blast
        have "(k, r) # rs = ((k, r) # pre) @ (k', r') # post" using h by simp
        moreover have "\<forall>p\<in>set ((k, r) # pre). all_conditions a (conditions (snd p)) = Inr False"
          using h Inr False by simp
        ultimately show ?thesis using h by blast
      qed
    qed
  qed
next
  assume "\<exists>pre k r post. rs = pre @ (k, r) # post
        \<and> (\<forall>p\<in>set pre. all_conditions a (conditions (snd p)) = Inr False)
        \<and> all_conditions a (conditions r) = Inr True \<and> g = rule_group_name r"
  then show "evaluate_rules rs a = Inr (Some g)"
    using evaluate_rules_append by auto
qed

lemma process_existing_assets_rules [simp]:
  "rules (snd (process_existing_assets clk s)) = rules s"
  by (simp add: process_existing_assets_def split: prod.splits)

lemma create_rule_rules:
  "\<exists>nr. rules (snd (create_rule clk k r s)) = dict_set (rules s) k nr
        \<and> conditions nr = conditions r \<and> rule_group_name nr = rule_group_name r"
proof -
  define nr where "nr = r\<lparr>rule_id := Some k, rule_created_at := Some (clk (reads s)),
                       rule_updated_at := Some (clk (reads s)),
                       fields_set := [''id'', ''created_at'', ''updated_at'',
                                      ''group_name'', ''conditions'', ''description'']\<rparr>"
  define s2 where "s2 = s\<lparr>reads := Suc (reads s), rules := dict_set (rules s) k nr\<rparr>"
  have "snd (create_rule clk k r s) = snd (process_existing_assets clk s2)"
    by (simp add: create_rule_def Let_def nr_def s2_def split: prod.splits sum.splits)
  then have "rules (snd (create_rule clk k r s)) = dict_set (rules s) k nr"
    by (simp add: s2_def)
  then show ?thesis by (auto simp: nr_def)
qed

text \<open>
  The scenario of \<open>test_complex_rule_matching\<close>: the rule with three conditions groups an
  asset that has the type, the name and the tag, and not the development instance.
\<close>

lemma complex_rule_matching:
  "evaluate_rules [(''r1'', complex_rule)] sample_asset = Inr (Some ''production-instances'')
   \<and> evaluate_rules [(''r1'', complex_rule)] asset_two = Inr None"
  by (simp add: complex_rule_def sample_asset_def asset_two_def cond_type_def cond_name_def
      cond_tag_def evaluate_condition_def)

text \<open>
  Claim C2: the condition evaluator is total and never errors; a required value that is
  absent counts as not matching. The code does not do that for \<open>contains\<close>: on
  \<open>GroupingCondition(field="type", operator="contains")\<close>, whose \<open>value\<close> is \<open>None\<close>, the
  evaluation of \<open>condition.value in asset.type\<close> raises \<open>TypeError\<close> instead of returning
  false.
\<close>

theorem evaluate_condition_absent_value_raises:
  "evaluate_condition sample_asset cond_no_value = Inl TypeError"
  by (simp add: evaluate_condition_def cond_no_value_def)

text \<open>
  \<open>all\<close> over the conditions returns false iff some condition returns false and every
  condition before it returns true.
\<close>

lemma all_conditions_False_iff:
  "all_conditions a cs = Inr False \<longleftrightarrow>
     (\<exists>pre c post. cs = pre @ c # post
        \<and> (\<forall>d\<in>set pre. evaluate_condition a d = Inr True)
        \<and> evaluate_condition a c = Inr False)"
proof (induction cs)
  case Nil
  then show ?case by simp
next
  case (Cons x xs)
  show ?case
  proof (cases "evaluate_condition a x")
    case (Inl e)
    have "\<not> (\<exists>pre c post. x # xs = pre @ c # post
        \<and> (\<forall>d\<in>set pre. evaluate_condition a d = Inr True)
        \<and> evaluate_condition a c = Inr False)"
    proof
      assume "\<exists>pre c post. x # xs = pre @ c # post
        \<and> (\<forall>d\<in>set pre. evaluate_condition a d = Inr True)
        \<and> evaluate_condition a c = Inr False"
      then obtain pre c post where h: "x # xs = pre @ c # post"
        "\<forall>d\<in>set pre. evaluate_condition a d = Inr True" "evaluate_condition a c = Inr False"
        by blast
      show False using h Inl by (cases pre) auto
    qed
    then show ?thesis using Inl by simp
  next
    case (Inr b)
    show ?thesis
    proof (cases b)
      case True
      have "(\<exists>pre c post. x # xs = pre @ c # post
        \<and> (\<forall>d\<in>set pre. evaluate_condition a d = Inr True)
        \<and> evaluate_condition a c = Inr False) \<longleftrightarrow>
        (\<exists>pre c post. xs = pre @ c # post
        \<and> (\<forall>d\<in>set pre. evaluate_condition a d = Inr True)
        \<and> evaluate_condition a c = Inr False)" (is "?L \<longleftrightarrow> ?R")
      proof
        assume ?L
        then obtain pre c post where h: "x # xs = pre @ c # post"
          "\<forall>d\<in>set pre. evaluate_condition a d = Inr True" "evaluate_condition a c = Inr False"
          by blast
        show ?R
        proof (cases pre)
          case Nil
          then show ?thesis using h Inr True by auto
        next
          case (Cons p pre')
          then have "xs = pre' @ c # post" "\<forall>d\<in>set pre'. evaluate_condition a d = Inr True"
            using h by auto
          then show ?thesis using h(3) by blast
        qed
      next
        assume ?R
        then obtain pre c post where h: "xs = pre @ c # post"
          "\<forall>d\<in>set pre. evaluate_condition a d = Inr True" "evaluate_condition a c = Inr False"
          by blast
        have "x # xs = (x # pre) @ c # post" using h by simp
        moreover have "\<forall>d\<in>set (x # pre). evaluate_condition a d = Inr True"
          using h Inr True by simp
        ultimately show ?L using h(3) by blast
      qed
      then show ?thesis using Inr True Cons.IH by simp
    next
      case False
      have "x # xs = [] @ x # xs" by simp
      then have "\<exists>pre c post. x # xs = pre @ c # post
        \<and> (\<forall>d\<in>set pre. evaluate_condition a d = Inr True)
        \<and> evaluate_condition a c = Inr False"
        using Inr False by (metis empty_iff list.set(1))
      then show ?thesis using Inr False by simp
    qed
  qed
qed

text \<open>
  \<open>_evaluate_rules\<close> where no evaluated condition raises. It visits the rules in insertion
  order, which is creation order (a rule created under a new identifier goes to the end of
  the rule dictionary); \<open>all\<close> over the conditions of a rule returns true iff every
  condition returns true, so it does for a rule without conditions; the result is the group
  name of the first rule for which \<open>all\<close> returns true, every rule before it having
  returned false, also when a later rule returns true as well; it is none iff \<open>all\<close> returns
  false for every rule. A rule for which \<open>all\<close> raises is in neither case.
\<close>

theorem evaluate_rules_first_match:
  "(conditions r = [] \<longrightarrow> all_conditions a (conditions r) = Inr True)
   \<and> (all_conditions a (conditions r) = Inr True
        \<longleftrightarrow> (\<forall>c\<in>set (conditions r). evaluate_condition a c = Inr True))
   \<and> (evaluate_rules rs a = Inr (Some g)
        \<longleftrightarrow> (\<exists>pre k1 r1 post. rs = pre @ (k1, r1) # post
               \<and> (\<forall>p\<in>set pre. all_conditions a (conditions (snd p)) = Inr False)
               \<and> all_conditions a (conditions r1) = Inr True \<and> g = rule_group_name r1))
   \<and> (evaluate_rules rs a = Inr None
        \<longleftrightarrow> (\<forall>p\<in>set rs. all_conditions a (conditions (snd p)) = Inr False))
   \<and> ((\<forall>p\<in>set pre. all_conditions a (conditions (snd p)) = Inr False)
        \<and> all_conditions a (conditions r1) = Inr True
        \<and> all_conditions a (conditions r2) = Inr True
      \<longrightarrow> evaluate_rules (pre @ (k1, r1) # mid @ (k2, r2) # post) a = Inr (Some (rule_group_name r1)))
   \<and> (dict_get (rules s) k = None
      \<longrightarrow> (\<exists>nr. rules (snd (create_rule clk k r s)) = rules s @ [(k, nr)]
               \<and> conditions nr = conditions r \<and> rule_group_name nr = rule_group_name r))"
proof (intro conjI impI)
  show "all_conditions a (conditions r) = Inr True" if "conditions r = []"
    using that by simp
  show "all_conditions a (conditions r) = Inr True
        \<longleftrightarrow> (\<forall>c\<in>set (conditions r). evaluate_condition a c = Inr True)"
    by (rule all_conditions_True_iff)
  show "evaluate_rules rs a = Inr (Some g)
        \<longleftrightarrow> (\<exists>pre k1 r1 post. rs = pre @ (k1, r1) # post
               \<and> (\<forall>p\<in>set pre. all_conditions a (conditions (snd p)) = Inr False)
               \<and> all_conditions a (conditions r1) = Inr True \<and> g = rule_group_name r1)"
    by (rule evaluate_rules_Some_iff)
  show "evaluate_rules rs a = Inr None
        \<longleftrightarrow> (\<forall>p\<in>set rs. all_conditions a (conditions (snd p)) = Inr False)"
    by (rule evaluate_rules_None_iff)
  show "evaluate_rules (pre @ (k1, r1) # mid @ (k2, r2) # post) a = Inr (Some (rule_group_name r1))"
    if "(\<forall>p\<in>set pre. all_conditions a (conditions (snd p)) = Inr False)
        \<and> all_conditions a (conditions r1) = Inr True
        \<and> all_conditions a (conditions r2) = Inr True"
    using that by (simp add: evaluate_rules_append)
  show "\<exists>nr. rules (snd (create_rule clk k r s)) = rules s @ [(k, nr)]
               \<and> conditions nr = conditions r \<and> rule_group_name nr = rule_group_name r"
    if "dict_get (rules s) k = None"
    using that create_rule_rules [of clk k r s] by (auto simp: dict_set_absent)
qed

theorem evaluate_rules_first_match_witness:
  "all_conditions sample_asset (conditions catch_all_rule) = Inr True
   \<and> all_conditions sample_asset (conditions sample_rule) = Inr True
   \<and> evaluate_rules ([] @ (''r1'', catch_all_rule) # [] @ (''r2'', sample_rule) # []) sample_asset
       = Inr (Some ''everything'')
   \<and> evaluate_rules [(''r2'', sample_rule), (''r1'', catch_all_rule)] sample_asset
       = Inr (Some ''production-instances'')
   \<and> evaluate_rules [(''r2'', sample_rule)] asset_two = Inr None
   \<and> dict_get (rules init) ''r1'' = None
   \<and> map fst (rules (snd (create_rule tick_clock ''r2'' sample_rule
          (snd (create_rule tick_clock ''r1'' catch_all_rule init))))) = [''r1'', ''r2'']"
proof -
  have m1: "all_conditions sample_asset (conditions catch_all_rule) = Inr True"
    by (simp add: catch_all_rule_def)
  have m2: "all_conditions sample_asset (conditions sample_rule) = Inr True"
    by (simp add: sample_rule_def sample_asset_def cond_type_def cond_tag_def
        evaluate_condition_def)
  have m3: "all_conditions asset_two (conditions sample_rule) = Inr False"
    by (simp add: sample_rule_def asset_two_def cond_type_def cond_tag_def
        evaluate_condition_def)
  have e1: "evaluate_rules ([] @ (''r1'', catch_all_rule) # [] @ (''r2'', sample_rule) # [])
              sample_asset = Inr (Some ''everything'')"
    using evaluate_rules_first_match
      [where pre = "[]" and a = sample_asset and ?r1.0 = catch_all_rule and ?r2.0 = sample_rule
         and ?k1.0 = "''r1''" and mid = "[]" and ?k2.0 = "''r2''" and post = "[]"] m1 m2
    by (simp add: catch_all_rule_def)
  have e2: "evaluate_rules [(''r2'', sample_rule), (''r1'', catch_all_rule)] sample_asset
              = Inr (Some ''production-instances'')"
    using m2 by (simp add: sample_rule_def)
  have e3: "evaluate_rules [(''r2'', sample_rule)] asset_two = Inr None"
    using evaluate_rules_first_match [where rs = "[(''r2'', sample_rule)]" and a = asset_two] m3
    by simp
  have f1: "dict_get (rules init) ''r1'' = None" by (simp add: init_def)
  obtain nr1 where n1: "rules (snd (create_rule tick_clock ''r1'' catch_all_rule init))
      = rules init @ [(''r1'', nr1)]"
    using evaluate_rules_first_match
      [where s = init and k = "''r1''" and r = catch_all_rule and clk = tick_clock] f1 by blast
  have f2: "dict_get (rules (snd (create_rule tick_clock ''r1'' catch_all_rule init))) ''r2'' = None"
    using n1 by (simp add: init_def)
  obtain nr2 where n2: "rules (snd (create_rule tick_clock ''r2'' sample_rule
          (snd (create_rule tick_clock ''r1'' catch_all_rule init))))
      = rules (snd (create_rule tick_clock ''r1'' catch_all_rule init)) @ [(''r2'', nr2)]"
    using evaluate_rules_first_match
      [where s = "snd (create_rule tick_clock ''r1'' catch_all_rule init)" and k = "''r2''"
         and r = sample_rule and clk = tick_clock] f2 by blast
  show ?thesis using m1 m2 e1 e2 e3 f1 n1 n2 by (simp add: init_def)
qed

text \<open>
  Claim C3: resolution visits the rules in creation order, a rule matches iff all of its
  conditions match, the result is the group name of the first matching rule and none when
  no rule matches. The code does not do that when a visited rule has a \<open>contains\<close>
  condition without \<open>value\<close>. Such a condition matches no asset, so \<open>valueless_rule\<close>
  matches no asset. With the sample rule, which matches the sample asset, created after
  it, the result should be the sample rule's group name, and with \<open>valueless_rule\<close> alone
  it should be none; in both cases \<open>_evaluate_rules\<close> raises the \<open>TypeError\<close> of
  \<open>condition.value in asset.type\<close> instead of returning.
\<close>

theorem evaluate_rules_valueless_rule_raises:
  "all_conditions sample_asset (conditions sample_rule) = Inr True
   \<and> evaluate_rules [(''r0'', valueless_rule), (''r1'', sample_rule)] sample_asset
       = Inl TypeError
   \<and> evaluate_rules [(''r0'', valueless_rule)] asset_two = Inl TypeError"
  by (simp add: sample_rule_def valueless_rule_def cond_no_value_def cond_type_def
      cond_tag_def sample_asset_def asset_two_def evaluate_condition_def)

text \<open>
  The rows of the matching table that the code has. A \<open>type\<close> or \<open>name\<close> condition with
  \<open>equals\<close> returns the comparison of the field with \<open>condition.value\<close>; with \<open>contains\<close>
  and a \<open>value\<close> that is present it returns whether \<open>value\<close> is a contiguous run of
  characters of the field, compared character by character; a \<open>tag\<close> condition with
  \<open>exists\<close> asks for a tag with the key \<open>tag_key\<close>, with \<open>equals\<close> for one tag with both
  the key \<open>tag_key\<close> and the value \<open>tag_value\<close>; every other combination of field and
  operator gives false. The \<open>contains\<close> rows with \<open>value\<close> absent are not among them.
\<close>

theorem evaluate_condition_table:
  "(field c = ''type'' \<and> operator c = EQUALS
      \<longrightarrow> evaluate_condition a c = Inr (Some (atype a) = cvalue c))
   \<and> (field c = ''type'' \<and> operator c = CONTAINS
      \<longrightarrow> (evaluate_condition a c = Inr True
            \<longleftrightarrow> (\<exists>v p q. cvalue c = Some v \<and> atype a = p @ v @ q))
        \<and> (\<forall>v. cvalue c = Some v
            \<longrightarrow> evaluate_condition a c = Inr (\<exists>p q. atype a = p @ v @ q)))
   \<and> (field c = ''name'' \<and> operator c = EQUALS
      \<longrightarrow> evaluate_condition a c = Inr (Some (name a) = cvalue c))
   \<and> (field c = ''name'' \<and> operator c = CONTAINS
      \<longrightarrow> (evaluate_condition a c = Inr True
            \<longleftrightarrow> (\<exists>v p q. cvalue c = Some v \<and> name a = p @ v @ q))
        \<and> (\<forall>v. cvalue c = Some v
            \<longrightarrow> evaluate_condition a c = Inr (\<exists>p q. name a = p @ v @ q)))
   \<and> (field c = ''tag'' \<and> operator c = EXISTS
      \<longrightarrow> evaluate_condition a c = Inr (\<exists>t\<in>set (tags a). Some (key t) = tag_key c))
   \<and> (field c = ''tag'' \<and> operator c = EQUALS
      \<longrightarrow> evaluate_condition a c
            = Inr (\<exists>t\<in>set (tags a). Some (key t) = tag_key c \<and> Some (tvalue t) = tag_value c))
   \<and> (\<not> ((field c = ''type'' \<or> field c = ''name'') \<and> (operator c = EQUALS \<or> operator c = CONTAINS))
      \<and> \<not> (field c = ''tag'' \<and> (operator c = EXISTS \<or> operator c = EQUALS))
      \<longrightarrow> evaluate_condition a c = Inr False)"
proof (intro conjI impI allI)
  show "evaluate_condition a c = Inr (Some (atype a) = cvalue c)"
    if "field c = ''type'' \<and> operator c = EQUALS"
    using that by (auto simp: evaluate_condition_def)
  show "evaluate_condition a c = Inr True \<longleftrightarrow> (\<exists>v p q. cvalue c = Some v \<and> atype a = p @ v @ q)"
    if "field c = ''type'' \<and> operator c = CONTAINS"
    using that by (cases "cvalue c") (auto simp: evaluate_condition_def str_contains_iff)
  show "evaluate_condition a c = Inr (\<exists>p q. atype a = p @ v @ q)"
    if "field c = ''type'' \<and> operator c = CONTAINS" "cvalue c = Some v" for v
    using that by (simp add: evaluate_condition_def str_contains_iff)
  show "evaluate_condition a c = Inr (Some (name a) = cvalue c)"
    if "field c = ''name'' \<and> operator c = EQUALS"
    using that by (auto simp: evaluate_condition_def)
  show "evaluate_condition a c = Inr True \<longleftrightarrow> (\<exists>v p q. cvalue c = Some v \<and> name a = p @ v @ q)"
    if "field c = ''name'' \<and> operator c = CONTAINS"
    using that by (cases "cvalue c") (auto simp: evaluate_condition_def str_contains_iff)
  show "evaluate_condition a c = Inr (\<exists>p q. name a = p @ v @ q)"
    if "field c = ''name'' \<and> operator c = CONTAINS" "cvalue c = Some v" for v
    using that by (simp add: evaluate_condition_def str_contains_iff)
  show "evaluate_condition a c = Inr (\<exists>t\<in>set (tags a). Some (key t) = tag_key c)"
    if "field c = ''tag'' \<and> operator c = EXISTS"
    using that by (auto simp: evaluate_condition_def list_ex_iff)
  show "evaluate_condition a c
            = Inr (\<exists>t\<in>set (tags a). Some (key t) = tag_key c \<and> Some (tvalue t) = tag_value c)"
    if "field c = ''tag'' \<and> operator c = EQUALS"
    using that by (auto simp: evaluate_condition_def list_ex_iff)
  show "evaluate_condition a c = Inr False"
    if "\<not> ((field c = ''type'' \<or> field c = ''name'') \<and> (operator c = EQUALS \<or> operator c = CONTAINS))
      \<and> \<not> (field c = ''tag'' \<and> (operator c = EXISTS \<or> operator c = EQUALS))"
    using that by (cases "operator c") (auto simp: evaluate_condition_def)
qed

theorem evaluate_condition_table_witness:
  "field cond_type = ''type'' \<and> operator cond_type = EQUALS
   \<and> evaluate_condition sample_asset cond_type = Inr True
   \<and> field cond_name = ''name'' \<and> operator cond_name = CONTAINS
   \<and> cvalue cond_name = Some ''prod''
   \<and> evaluate_condition sample_asset cond_name = Inr True
   \<and> evaluate_condition sample_asset (cond_name\<lparr>cvalue := Some ''PROD''\<rparr>) = Inr False
   \<and> field cond_tag = ''tag'' \<and> operator cond_tag = EQUALS
   \<and> evaluate_condition sample_asset cond_tag = Inr True
   \<and> evaluate_condition asset_two cond_tag = Inr False
   \<and> evaluate_condition sample_asset (cond_tag\<lparr>operator := EXISTS, tag_key := Some ''team''\<rparr>)
       = Inr True
   \<and> evaluate_condition sample_asset (cond_type\<lparr>field := ''region''\<rparr>) = Inr False
   \<and> evaluate_condition sample_asset (cond_tag\<lparr>operator := CONTAINS\<rparr>) = Inr False"
  using evaluate_condition_table [of cond_type sample_asset]
    evaluate_condition_table [of cond_name sample_asset]
    evaluate_condition_table [of "cond_name\<lparr>cvalue := Some ''PROD''\<rparr>" sample_asset]
    evaluate_condition_table [of cond_tag sample_asset]
    evaluate_condition_table [of cond_tag asset_two]
    evaluate_condition_table [of "cond_tag\<lparr>operator := EXISTS, tag_key := Some ''team''\<rparr>" sample_asset]
    evaluate_condition_table [of "cond_type\<lparr>field := ''region''\<rparr>" sample_asset]
    evaluate_condition_table [of "cond_tag\<lparr>operator := CONTAINS\<rparr>" sample_asset]
  by (simp add: evaluate_condition_def sample_asset_def asset_two_def cond_type_def
      cond_name_def cond_tag_def)

text \<open>
  Claim C4: for every asset and every condition with a defined combination of field and
  operator the evaluator returns the comparison of the matching table. The code does not
  do that on the two \<open>contains\<close> rows when \<open>value\<close> is absent: \<open>name\<close> with \<open>contains\<close> is
  a defined combination, no \<open>value\<close> is a substring of no name, and on
  \<open>GroupingCondition(field="name", operator="contains")\<close> the evaluator raises \<open>TypeError\<close>
  where the table gives false; so it does on the \<open>type\<close> row for the development asset.
\<close>

theorem evaluate_condition_contains_row_raises:
  "field cond_name_no_value = ''name'' \<and> operator cond_name_no_value = CONTAINS
   \<and> cvalue cond_name_no_value = None
   \<and> evaluate_condition sample_asset cond_name_no_value = Inl TypeError
   \<and> evaluate_condition asset_two cond_no_value = Inl TypeError"
  by (simp add: cond_name_no_value_def cond_no_value_def evaluate_condition_def)

section \<open>Properties of the update operations\<close>

lemma dict_get_dict_set:
  "dict_get (dict_set d k v) k' = (if k' = k then Some v else dict_get d k')"
  by (induction d) auto

lemma dict_set_keys: "dict_get d k \<noteq> None \<Longrightarrow> map fst (dict_set d k v) = map fst d"
  by (induction d) (auto split: if_splits)

lemma dict_get_append:
  "dict_get (d @ e) k = (case dict_get d k of None \<Rightarrow> dict_get e k | Some v \<Rightarrow> Some v)"
  by (induction d) auto

lemma kwargs_merge_error: "kwargs_merge kw xs = Inl e \<Longrightarrow> e = TypeError"
  by (induction kw xs rule: kwargs_merge.induct) (auto split: if_splits)

lemma kwargs_merge_keeps:
  "kwargs_merge kw xs = Inr kw' \<Longrightarrow> k \<in> set (map key_of kw) \<Longrightarrow> k \<in> set (map key_of kw')"
  by (induction kw xs rule: kwargs_merge.induct) (auto split: if_splits)

lemma model_dump_updated_at: "''updated_at'' \<in> set (map key_of (model_dump r))"
  by (simp add: model_dump_def)

lemma update_rule_present_raises:
  assumes "dict_get (rules s) rid = Some current_rule"
  shows "fst (update_rule clk rid r s) = Inl TypeError
         \<and> rules (snd (update_rule clk rid r s)) = rules s
         \<and> assets (snd (update_rule clk rid r s)) = assets s"
proof (cases "kwargs_merge (model_dump current_rule) (model_dump_update r)")
  case (Inl e)
  then have "e = TypeError" by (rule kwargs_merge_error)
  then show ?thesis using assms Inl by (simp add: update_rule_def)
next
  case (Inr kw1)
  then have "''updated_at'' \<in> set (map key_of kw1)"
    using kwargs_merge_keeps model_dump_updated_at by blast
  then show ?thesis using assms Inr by (auto simp: update_rule_def Let_def)
qed

text \<open>
  Claim C1: \<open>update_rule\<close> returns none for an absent id and, for a stored id, merges the
  supplied fields over the stored rule, refreshes \<open>updated_at\<close>, stores and returns the
  merged rule and reprocesses the assets. The code does the first and never the second:
  \<open>current_rule.model_dump()\<close> already has the key \<open>updated_at\<close> (and \<open>group_name\<close> and
  \<open>conditions\<close>, which every payload sets), so the constructor call raises \<open>TypeError\<close>
  for a repeated keyword argument, for every stored id and every payload
  (\<open>update_rule_present_raises\<close>). Here the sample rule is created and then updated with a
  new group name: the call raises and the store is as it was.
\<close>

theorem update_rule_stored_rule_raises:
  "fst (update_rule tick_clock ''r1'' (sample_rule\<lparr>rule_group_name := ''prod''\<rparr>)
         (snd (create_rule tick_clock ''r1'' sample_rule init))) = Inl TypeError
   \<and> snd (update_rule tick_clock ''r1'' (sample_rule\<lparr>rule_group_name := ''prod''\<rparr>)
         (snd (create_rule tick_clock ''r1'' sample_rule init)))
       = snd (create_rule tick_clock ''r1'' sample_rule init)"
  by (simp add: update_rule_def create_rule_def init_def sample_rule_def
      process_existing_assets_def model_dump_def model_dump_update_def Let_def)

text \<open>
  Claim C9: with an id that is not a key of the dictionary concerned, \<open>update_asset\<close> and
  \<open>update_rule\<close> return none and the store is exactly the one before the call: neither
  dictionary changes, the clock is not read and no reprocessing pass runs.
\<close>

theorem update_absent_id:
  "(dict_get (assets s) k = None \<longrightarrow> update_asset clk k a s = (Inr None, s))
   \<and> (dict_get (rules s) k = None \<longrightarrow> update_rule clk k r s = (Inr None, s))"
  by (simp add: update_asset_def update_rule_def)

theorem update_absent_id_witness:
  "dict_get (assets (snd (create_rule tick_clock ''r1'' sample_rule init))) ''a1'' = None
   \<and> dict_get (rules (snd (create_asset tick_clock ''a1'' sample_asset init))) ''r1'' = None
   \<and> update_asset tick_clock ''a1'' sample_asset (snd (create_rule tick_clock ''r1'' sample_rule init))
       = (Inr None, snd (create_rule tick_clock ''r1'' sample_rule init))
   \<and> update_rule tick_clock ''r1'' sample_rule (snd (create_asset tick_clock ''a1'' sample_asset init))
       = (Inr None, snd (create_asset tick_clock ''a1'' sample_asset init))"
proof -
  have a: "dict_get (assets (snd (create_rule tick_clock ''r1'' sample_rule init))) ''a1'' = None"
    by (simp add: create_rule_def init_def process_existing_assets_def Let_def)
  have b: "dict_get (rules (snd (create_asset tick_clock ''a1'' sample_asset init))) ''r1'' = None"
    by (simp add: create_asset_def init_def Let_def)
  show ?thesis
    using a b
      update_absent_id [of "snd (create_rule tick_clock ''r1'' sample_rule init)" "''a1''"
        tick_clock sample_asset]
      update_absent_id [of "snd (create_asset tick_clock ''a1'' sample_asset init)" "''r1''"
        tick_clock _ sample_rule]
    by simp
qed

text \<open>The evaluator reads the name, the type and the tags of an asset and nothing else.\<close>

lemma evaluate_condition_fields:
  "name a = name b \<Longrightarrow> atype a = atype b \<Longrightarrow> tags a = tags b \<Longrightarrow>
   evaluate_condition a c = evaluate_condition b c"
  by (simp add: evaluate_condition_def)

lemma all_conditions_fields:
  "name a = name b \<Longrightarrow> atype a = atype b \<Longrightarrow> tags a = tags b \<Longrightarrow>
   all_conditions a cs = all_conditions b cs"
  by (induction cs) (auto simp: evaluate_condition_fields [of a b] split: sum.splits)

lemma evaluate_rules_fields:
  "name a = name b \<Longrightarrow> atype a = atype b \<Longrightarrow> tags a = tags b \<Longrightarrow>
   evaluate_rules rs a = evaluate_rules rs b"
  by (induction rs) (auto simp: all_conditions_fields [of a b] split: sum.splits)

text \<open>
  \<open>update_asset\<close> where the evaluation of the rules returns, and where it raises.
  \<open>update_asset\<close> returns none for an id that is not stored. For a stored id the
  result has the payload's fields, the id, the stored \<open>created_at\<close>, \<open>updated_at\<close> equal to
  the clock reading of the call, and as \<open>group_name\<close> whatever \<open>_evaluate_rules\<close> returns
  for the new field values, none included, whatever group the stored asset had; the result
  replaces the stored asset, and the other assets and the rules stay. When an evaluated
  condition raises, the call raises and both dictionaries stay as they were.
\<close>

theorem update_asset_merges_and_regroups:
  "(dict_get (assets s) k = None \<longrightarrow> update_asset clk k p s = (Inr None, s))
   \<and> (\<forall>cur g. dict_get (assets s) k = Some cur \<and> evaluate_rules (rules s) p = Inr g
        \<longrightarrow> (\<exists>u s'. update_asset clk k p s = (Inr (Some u), s')
               \<and> name u = name p \<and> atype u = atype p \<and> tags u = tags p
               \<and> cloud_account u = cloud_account p \<and> owner_id u = owner_id p
               \<and> region u = region p
               \<and> a_id u = Some k \<and> created_at u = created_at cur
               \<and> updated_at u = Some (clk (reads s)) \<and> group_name u = g
               \<and> dict_get (assets s') k = Some u
               \<and> (\<forall>k'. k' \<noteq> k \<longrightarrow> dict_get (assets s') k' = dict_get (assets s) k')
               \<and> map fst (assets s') = map fst (assets s)
               \<and> rules s' = rules s))
   \<and> (\<forall>cur e. dict_get (assets s) k = Some cur \<and> evaluate_rules (rules s) p = Inl e
        \<longrightarrow> fst (update_asset clk k p s) = Inl e
            \<and> assets (snd (update_asset clk k p s)) = assets s
            \<and> rules (snd (update_asset clk k p s)) = rules s)"
proof (intro conjI impI allI)
  show "update_asset clk k p s = (Inr None, s)" if "dict_get (assets s) k = None"
    using that by (simp add: update_asset_def)
next
  fix cur g
  assume h: "dict_get (assets s) k = Some cur \<and> evaluate_rules (rules s) p = Inr g"
  define merged where "merged = p\<lparr>a_id := Some k, group_name := group_name cur,
                          created_at := created_at cur, updated_at := Some (clk (reads s))\<rparr>"
  have ev: "evaluate_rules (rules s) merged = Inr g"
    using h evaluate_rules_fields [of merged p "rules s"] by (simp add: merged_def)
  define u where "u = merged\<lparr>group_name := g\<rparr>"
  define s' where "s' = s\<lparr>reads := Suc (reads s), assets := dict_set (assets s) k u\<rparr>"
  have r: "update_asset clk k p s = (Inr (Some u), s')"
    using h ev by (simp add: update_asset_def Let_def merged_def [symmetric] u_def s'_def)
  have "map fst (assets s') = map fst (assets s)"
    using h by (simp add: s'_def dict_set_keys)
  then show "\<exists>u s'. update_asset clk k p s = (Inr (Some u), s')
               \<and> name u = name p \<and> atype u = atype p \<and> tags u = tags p
               \<and> cloud_account u = cloud_account p \<and> owner_id u = owner_id p
               \<and> region u = region p
               \<and> a_id u = Some k \<and> created_at u = created_at cur
               \<and> updated_at u = Some (clk (reads s)) \<and> group_name u = g
               \<and> dict_get (assets s') k = Some u
               \<and> (\<forall>k'. k' \<noteq> k \<longrightarrow> dict_get (assets s') k' = dict_get (assets s) k')
               \<and> map fst (assets s') = map fst (assets s)
               \<and> rules s' = rules s"
    using r by (simp add: u_def merged_def s'_def dict_get_dict_set)
next
  fix cur e
  assume h: "dict_get (assets s) k = Some cur \<and> evaluate_rules (rules s) p = Inl e"
  define merged where "merged = p\<lparr>a_id := Some k, group_name := group_name cur,
                          created_at := created_at cur, updated_at := Some (clk (reads s))\<rparr>"
  have ev: "evaluate_rules (rules s) merged = Inl e"
    using h evaluate_rules_fields [of merged p "rules s"] by (simp add: merged_def)
  have r: "update_asset clk k p s = (Inl e, s\<lparr>reads := Suc (reads s)\<rparr>)"
    using h ev by (simp add: update_asset_def Let_def merged_def [symmetric])
  show "fst (update_asset clk k p s) = Inl e" using r by simp
  show "assets (snd (update_asset clk k p s)) = assets s" using r by simp
  show "rules (snd (update_asset clk k p s)) = rules s" using r by simp
qed

theorem update_asset_merges_and_regroups_witness:
  "dict_get (assets grouped_store) ''zz'' = None
   \<and> update_asset tick_clock ''zz'' asset_two grouped_store = (Inr None, grouped_store)
   \<and> map_option group_name (dict_get (assets grouped_store) ''a1'')
       = Some (Some ''production-instances'')
   \<and> evaluate_rules (rules grouped_store) asset_two = Inr None
   \<and> (\<exists>u s'. update_asset tick_clock ''a1'' asset_two grouped_store = (Inr (Some u), s')
         \<and> name u = ''dev-instance'' \<and> a_id u = Some ''a1'' \<and> created_at u = Some 1
         \<and> updated_at u = Some 2 \<and> group_name u = None
         \<and> dict_get (assets s') ''a1'' = Some u)"
proof -
  have st: "grouped_store =
     \<lparr>assets = [(''a1'', sample_asset\<lparr>a_id := Some ''a1'',
                    group_name := Some ''production-instances'',
                    created_at := Some 1, updated_at := Some 1\<rparr>)],
      rules = [(''r1'', sample_rule\<lparr>rule_id := Some ''r1'', rule_created_at := Some 0,
                  rule_updated_at := Some 0,
                  fields_set := [''id'', ''created_at'', ''updated_at'',
                                 ''group_name'', ''conditions'', ''description'']\<rparr>)],
      reads = 2\<rparr>"
    by (simp add: grouped_store_def create_asset_def create_rule_def init_def
        process_existing_assets_def Let_def tick_clock_def sample_rule_def sample_asset_def
        cond_type_def cond_tag_def evaluate_condition_def)
  have a: "dict_get (assets grouped_store) ''zz'' = None" by (simp add: st)
  have b: "dict_get (assets grouped_store) ''a1''
      = Some (sample_asset\<lparr>a_id := Some ''a1'', group_name := Some ''production-instances'',
                created_at := Some 1, updated_at := Some 1\<rparr>)"
    by (simp add: st)
  have c: "evaluate_rules (rules grouped_store) asset_two = Inr None"
    by (simp add: st sample_rule_def asset_two_def cond_type_def cond_tag_def
        evaluate_condition_def)
  have d: "reads grouped_store = 2" by (simp add: st)
  show ?thesis
    using a b c d
      update_asset_merges_and_regroups [of grouped_store "''zz''" tick_clock asset_two]
      update_asset_merges_and_regroups [of grouped_store "''a1''" tick_clock asset_two]
    by (auto simp: tick_clock_def asset_two_def sample_asset_def)
qed

lemma valueless_store_eq:
  "valueless_store =
     \<lparr>assets = [(''a1'', sample_asset\<lparr>a_id := Some ''a1'', created_at := Some 0,
                                      updated_at := Some 0\<rparr>)],
      rules = [(''r0'', valueless_rule\<lparr>rule_id := Some ''r0'', rule_created_at := Some 1,
                   rule_updated_at := Some 1,
                   fields_set := [''id'', ''created_at'', ''updated_at'',
                                  ''group_name'', ''conditions'', ''description'']\<rparr>)],
      reads = 2\<rparr>"
  by (simp add: valueless_store_def create_asset_def create_rule_def init_def
      process_existing_assets_def Let_def valueless_rule_def cond_no_value_def
      evaluate_condition_def tick_clock_def sample_asset_def)

text \<open>
  Claim C5: for every stored state, \<open>update_asset\<close> with a stored id merges the supplied
  fields over the stored record, refreshes \<open>updated_at\<close>, re-runs resolution and overwrites
  \<open>group_name\<close> with the result. The code does not do that in a store that holds a rule
  with a \<open>contains\<close> condition without \<open>value\<close>. In \<open>valueless_store\<close> (the sample asset
  is created, then \<open>valueless_rule\<close>) the asset \<open>a1\<close> is stored; the update of \<open>a1\<close> with
  the fields of the development asset raises \<open>TypeError\<close> in \<open>_evaluate_rules\<close>, which
  runs before the record is stored, and the stored asset is as it was: its name is still
  that of the sample asset. The rule matches no asset, so the update should have stored
  the new fields with no group.
\<close>

theorem update_asset_stored_id_raises:
  "map_option name (dict_get (assets valueless_store) ''a1'') = Some ''test-instance-prod''
   \<and> fst (update_asset tick_clock ''a1'' asset_two valueless_store) = Inl TypeError
   \<and> assets (snd (update_asset tick_clock ''a1'' asset_two valueless_store))
       = assets valueless_store
   \<and> map_option name
        (dict_get (assets (snd (update_asset tick_clock ''a1'' asset_two valueless_store)))
           ''a1'') = Some ''test-instance-prod''"
  by (simp add: valueless_store_eq update_asset_def Let_def valueless_rule_def
      cond_no_value_def evaluate_condition_def sample_asset_def asset_two_def)

section \<open>Properties of the reprocessing pass\<close>

text \<open>
  A pass over the assets that an earlier pass left behind changes nothing and ends the
  same way, whatever the clock: a grouped asset is skipped, an asset that stayed ungrouped
  evaluates as before, and the asset at which the earlier pass raised raises again.
\<close>

lemma process_assets_idem:
  "process_assets clk rs n xs = (r, xs', n') \<Longrightarrow> process_assets clk' rs m xs' = (r, xs', m)"
proof (induction xs arbitrary: n m r xs' n')
  case Nil
  then show ?case by simp
next
  case (Cons x xs)
  obtain k a where x: "x = (k, a)" by (cases x)
  show ?case
  proof (cases "truthy (group_name a)")
    case True
    obtain r1 ys n1 where rec: "process_assets clk rs n xs = (r1, ys, n1)"
      by (cases "process_assets clk rs n xs") auto
    have res: "r = r1" "xs' = (k, a) # ys"
      using Cons.prems x True rec by simp_all
    have "process_assets clk' rs m ys = (r1, ys, m)" using Cons.IH [OF rec] .
    then show ?thesis using res True by simp
  next
    case False
    show ?thesis
    proof (cases "evaluate_rules rs a")
      case (Inl e)
      then have "r = Inl e" "xs' = (k, a) # xs" using Cons.prems x False by simp_all
      then show ?thesis using False Inl by simp
    next
      case (Inr g)
      show ?thesis
      proof (cases "truthy g")
        case True
        obtain r1 ys n1 where rec: "process_assets clk rs (Suc n) xs = (r1, ys, n1)"
          by (cases "process_assets clk rs (Suc n) xs") auto
        have res: "r = r1" "xs' = (k, a\<lparr>group_name := g, updated_at := Some (clk n)\<rparr>) # ys"
          using Cons.prems x False Inr True rec by simp_all
        have "process_assets clk' rs m ys = (r1, ys, m)" using Cons.IH [OF rec] .
        then show ?thesis using res True by simp
      next
        case ng: False
        obtain r1 ys n1 where rec: "process_assets clk rs n xs = (r1, ys, n1)"
          by (cases "process_assets clk rs n xs") auto
        have res: "r = r1" "xs' = (k, a) # ys"
          using Cons.prems x False Inr ng rec by simp_all
        have "process_assets clk' rs m ys = (r1, ys, m)" using Cons.IH [OF rec] .
        then show ?thesis using res False Inr ng by simp
      qed
    qed
  qed
qed

text \<open>
  Claim C7: running the reprocessing pass twice in a row, with no mutation in between, is
  idempotent: the second pass returns (or raises) as the first did and leaves the whole
  store, every asset's \<open>group_name\<close> and \<open>updated_at\<close> included, as the first pass left
  it, even if the clock has moved on.
\<close>

theorem reprocessing_pass_idempotent:
  "process_existing_assets clk' (snd (process_existing_assets clk s))
     = process_existing_assets clk s"
proof -
  obtain r xs n where p: "process_assets clk (rules s) (reads s) (assets s) = (r, xs, n)"
    by (cases "process_assets clk (rules s) (reads s) (assets s)") auto
  have "process_assets clk' (rules s) n xs = (r, xs, n)"
    using process_assets_idem [OF p] .
  then show ?thesis using p by (simp add: process_existing_assets_def)
qed


text \<open>The shape of one round of the loop.\<close>

lemma process_assets_Cons:
  assumes "process_assets clk rs n ((k, a) # xs) = (r, xs', n')"
  obtains
    (raised) e where "\<not> truthy (group_name a)" "evaluate_rules rs a = Inl e"
      "r = Inl e" "xs' = (k, a) # xs" "n' = n"
  | (kept) ys where "truthy (group_name a) \<or> (\<exists>g. evaluate_rules rs a = Inr g \<and> \<not> truthy g)"
      "process_assets clk rs n xs = (r, ys, n')" "xs' = (k, a) # ys"
  | (assigned) g ys where "\<not> truthy (group_name a)" "evaluate_rules rs a = Inr g" "truthy g"
      "process_assets clk rs (Suc n) xs = (r, ys, n')"
      "xs' = (k, a\<lparr>group_name := g, updated_at := Some (clk n)\<rparr>) # ys"
proof (cases "truthy (group_name a)")
  case True
  obtain r1 ys n1 where rec: "process_assets clk rs n xs = (r1, ys, n1)"
    by (cases "process_assets clk rs n xs") auto
  then show ?thesis using assms True kept by simp
next
  case False
  show ?thesis
  proof (cases "evaluate_rules rs a")
    case (Inl e)
    then show ?thesis using assms False raised by simp
  next
    case (Inr g)
    show ?thesis
    proof (cases "truthy g")
      case True
      obtain r1 ys n1 where rec: "process_assets clk rs (Suc n) xs = (r1, ys, n1)"
        by (cases "process_assets clk rs (Suc n) xs") auto
      then show ?thesis using assms False Inr True assigned by simp
    next
      case ng: False
      obtain r1 ys n1 where rec: "process_assets clk rs n xs = (r1, ys, n1)"
        by (cases "process_assets clk rs n xs") auto
      then show ?thesis using assms False Inr ng kept by simp
    qed
  qed
qed

lemma process_assets_keys:
  "process_assets clk rs n xs = (r, xs', n') \<Longrightarrow> map fst xs' = map fst xs"
proof (induction xs arbitrary: n r xs' n')
  case Nil
  then show ?case by simp
next
  case (Cons x xs)
  obtain k a where x: "x = (k, a)" by (cases x)
  from Cons.prems [unfolded x] show ?case
  proof (cases rule: process_assets_Cons)
    case (raised e)
    then show ?thesis using x by simp
  next
    case (kept ys)
    then show ?thesis using x Cons.IH by simp
  next
    case (assigned g ys)
    then show ?thesis using x Cons.IH by simp
  qed
qed

lemma process_assets_reads:
  "process_assets clk rs n xs = (r, xs', n') \<Longrightarrow> n \<le> n'"
proof (induction xs arbitrary: n r xs' n')
  case Nil
  then show ?case by simp
next
  case (Cons x xs)
  obtain k a where x: "x = (k, a)" by (cases x)
  from Cons.prems [unfolded x] show ?case
  proof (cases rule: process_assets_Cons)
    case (raised e)
    then show ?thesis by simp
  next
    case (kept ys)
    then show ?thesis using Cons.IH by simp
  next
    case (assigned g ys)
    then show ?thesis using Cons.IH [of "Suc n"] by simp
  qed
qed

text \<open>
  What the pass does to the asset stored under a key, whether the pass returns or raises:
  the asset is as before, or it was ungrouped, the rules gave it a non-empty group, and it
  now carries that group and a clock reading of the pass.
\<close>

lemma process_assets_entry:
  "process_assets clk rs n xs = (r, xs', n') \<Longrightarrow> dict_get xs k = Some a \<Longrightarrow>
   dict_get xs' k = Some a
   \<or> (\<not> truthy (group_name a)
      \<and> (\<exists>g m. evaluate_rules rs a = Inr g \<and> truthy g \<and> n \<le> m \<and> m < n'
            \<and> dict_get xs' k = Some (a\<lparr>group_name := g, updated_at := Some (clk m)\<rparr>)))"
proof (induction xs arbitrary: n r xs' n')
  case Nil
  then show ?case by simp
next
  case (Cons x xs)
  obtain k0 a0 where x: "x = (k0, a0)" by (cases x)
  from Cons.prems(1) [unfolded x] show ?case
  proof (cases rule: process_assets_Cons)
    case (raised e)
    then show ?thesis using Cons.prems(2) x by simp
  next
    case (kept ys)
    show ?thesis
    proof (cases "k0 = k")
      case True
      then show ?thesis using kept Cons.prems(2) x by simp
    next
      case False
      then have "dict_get xs k = Some a" using Cons.prems(2) x by simp
      then show ?thesis using Cons.IH [OF kept(2)] kept(3) False by simp
    qed
  next
    case (assigned g ys)
    have le: "Suc n \<le> n'" using process_assets_reads [OF assigned(4)] .
    show ?thesis
    proof (cases "k0 = k")
      case True
      then have "a0 = a" using Cons.prems(2) x by simp
      then show ?thesis using assigned True le by auto
    next
      case False
      then have "dict_get xs k = Some a" using Cons.prems(2) x by simp
      from Cons.IH [OF assigned(4) this] show ?thesis
        using assigned(5) False by (auto simp: Suc_le_eq intro: less_imp_le)
    qed
  qed
qed

text \<open>The pass returns iff \<open>_evaluate_rules\<close> returns for every ungrouped asset.\<close>

lemma process_assets_returns_iff:
  "fst (process_assets clk rs n xs) = Inr ()
   \<longleftrightarrow> (\<forall>p\<in>set xs. \<not> truthy (group_name (snd p)) \<longrightarrow> (\<exists>g. evaluate_rules rs (snd p) = Inr g))"
proof (induction xs arbitrary: n)
  case Nil
  then show ?case by simp
next
  case (Cons x xs)
  obtain k a where x: "x = (k, a)" by (cases x)
  obtain r xs' n' where res: "process_assets clk rs n ((k, a) # xs) = (r, xs', n')"
    by (cases "process_assets clk rs n ((k, a) # xs)") auto
  from res show ?case
  proof (cases rule: process_assets_Cons)
    case (raised e)
    then show ?thesis using res x by auto
  next
    case (kept ys)
    have "fst (process_assets clk rs n xs) = r" using kept(2) by simp
    then show ?thesis using res x kept(1) Cons.IH [of n] by auto
  next
    case (assigned g ys)
    have "fst (process_assets clk rs (Suc n) xs) = r" using assigned(4) by simp
    then show ?thesis using res x assigned(1,2) Cons.IH [of "Suc n"] by auto
  qed
qed

text \<open>When the pass returns, every ungrouped asset whose rules give a group has it.\<close>

lemma process_assets_assigns:
  "process_assets clk rs n xs = (Inr (), xs', n') \<Longrightarrow> dict_get xs k = Some a \<Longrightarrow>
   \<not> truthy (group_name a) \<Longrightarrow> evaluate_rules rs a = Inr g \<Longrightarrow> truthy g \<Longrightarrow>
   \<exists>m. n \<le> m \<and> m < n' \<and> dict_get xs' k = Some (a\<lparr>group_name := g, updated_at := Some (clk m)\<rparr>)"
proof (induction xs arbitrary: n xs' n')
  case Nil
  then show ?case by simp
next
  case (Cons x xs)
  obtain k0 a0 where x: "x = (k0, a0)" by (cases x)
  from Cons.prems(1) [unfolded x] show ?case
  proof (cases rule: process_assets_Cons)
    case (raised e)
    then show ?thesis by simp
  next
    case (kept ys)
    have ne: "k0 \<noteq> k"
    proof
      assume "k0 = k"
      then have "a0 = a" using Cons.prems(2) x by simp
      then show False using kept(1) Cons.prems(3,4,5) by auto
    qed
    then have "dict_get xs k = Some a" using Cons.prems(2) x by simp
    from Cons.IH [OF kept(2) this Cons.prems(3,4,5)] show ?thesis
      using kept(3) ne by simp
  next
    case (assigned g0 ys)
    have le: "Suc n \<le> n'" using process_assets_reads [OF assigned(4)] .
    show ?thesis
    proof (cases "k0 = k")
      case True
      then have "a0 = a" using Cons.prems(2) x by simp
      then have "g0 = g" using assigned(2) Cons.prems(4) by simp
      then show ?thesis using assigned True le \<open>a0 = a\<close> by auto
    next
      case False
      then have "dict_get xs k = Some a" using Cons.prems(2) x by simp
      from Cons.IH [OF assigned(4) this Cons.prems(3,4,5)] show ?thesis
        using assigned(5) False by (auto simp: Suc_le_eq intro: less_imp_le)
    qed
  qed
qed

lemma process_existing_assets_unfold:
  "process_assets clk (rules s) (reads s) (assets s) = (r, xs, n) \<Longrightarrow>
   process_existing_assets clk s = (r, s\<lparr>assets := xs, reads := n\<rparr>)"
  by (simp add: process_existing_assets_def)

section \<open>Properties of creation and of the empty group name\<close>

lemma evaluate_rules_dict_set_new:
  "evaluate_rules rs a = Inr None \<Longrightarrow> all_conditions a (conditions nr) = Inr True \<Longrightarrow>
   evaluate_rules (dict_set rs rid nr) a = Inr (Some (rule_group_name nr))"
  by (induction rs a rule: evaluate_rules.induct) (auto split: sum.splits if_splits)

lemma create_asset_returns:
  assumes "evaluate_rules (rules s) a = Inr g"
  shows "\<exists>st. create_asset clk k a s
             = (Inr st, s\<lparr>reads := Suc (reads s), assets := dict_set (assets s) k st\<rparr>)
           \<and> group_name st = (if truthy g then g else None)
           \<and> created_at st = Some (clk (reads s)) \<and> updated_at st = Some (clk (reads s))"
proof -
  have "evaluate_rules (rules s)
          (a\<lparr>a_id := Some k, group_name := None, created_at := Some (clk (reads s)),
             updated_at := Some (clk (reads s))\<rparr>) = Inr g"
    using assms
      evaluate_rules_fields [of "a\<lparr>a_id := Some k, group_name := None,
        created_at := Some (clk (reads s)), updated_at := Some (clk (reads s))\<rparr>" a "rules s"]
    by simp
  then show ?thesis by (simp add: create_asset_def Let_def)
qed

lemma update_asset_present:
  assumes "dict_get (assets s) k = Some cur" "evaluate_rules (rules s) p = Inr g"
  shows "\<exists>u. update_asset clk k p s
            = (Inr (Some u), s\<lparr>reads := Suc (reads s), assets := dict_set (assets s) k u\<rparr>)
          \<and> group_name u = g \<and> created_at u = created_at cur
          \<and> updated_at u = Some (clk (reads s))"
proof -
  have "evaluate_rules (rules s)
          (p\<lparr>a_id := Some k, group_name := group_name cur, created_at := created_at cur,
             updated_at := Some (clk (reads s))\<rparr>) = Inr g"
    using assms(2)
      evaluate_rules_fields [of "p\<lparr>a_id := Some k, group_name := group_name cur,
        created_at := created_at cur, updated_at := Some (clk (reads s))\<rparr>" p "rules s"]
    by simp
  then show ?thesis using assms(1) by (simp add: update_asset_def Let_def)
qed

lemma unnamed_store_eq:
  "unnamed_store =
     \<lparr>assets = [],
      rules = [(''r0'', unnamed_rule\<lparr>rule_id := Some ''r0'', rule_created_at := Some 0,
                  rule_updated_at := Some 0,
                  fields_set := [''id'', ''created_at'', ''updated_at'',
                                 ''group_name'', ''conditions'', ''description'']\<rparr>)],
      reads = 1\<rparr>"
  by (simp add: unnamed_store_def create_rule_def init_def process_existing_assets_def
      Let_def tick_clock_def)

lemma unnamed_asset_store_eq:
  "unnamed_asset_store =
     \<lparr>assets = [(''a1'', sample_asset\<lparr>a_id := Some ''a1'', group_name := None,
                    created_at := Some 1, updated_at := Some 1\<rparr>)],
      rules = [(''r0'', unnamed_rule\<lparr>rule_id := Some ''r0'', rule_created_at := Some 0,
                  rule_updated_at := Some 0,
                  fields_set := [''id'', ''created_at'', ''updated_at'',
                                 ''group_name'', ''conditions'', ''description'']\<rparr>)],
      reads = 2\<rparr>"
  by (simp add: unnamed_asset_store_def unnamed_store_eq create_asset_def Let_def
      tick_clock_def unnamed_rule_def sample_asset_def)

lemma ungrouped_store_eq:
  "ungrouped_store =
     \<lparr>assets = [(''a1'', sample_asset\<lparr>a_id := Some ''a1'', group_name := None,
                    created_at := Some 0, updated_at := Some 0\<rparr>)],
      rules = [], reads = 1\<rparr>"
  by (simp add: ungrouped_store_def create_asset_def init_def Let_def tick_clock_def
      sample_asset_def)

text \<open>
  Claim C10: an empty group name counts as no group. When \<open>_evaluate_rules\<close> returns the
  empty string (the first matching rule has the empty string as group name),
  \<open>create_asset\<close> stores the asset with \<open>group_name\<close> none, and the reprocessing pass
  leaves the asset as it is, so an ungrouped asset stays at none; the pass re-evaluates an
  asset whose \<open>group_name\<close> is the empty string and gives it the non-empty group the rules
  return; \<open>update_asset\<close> alone stores the empty string as the group name.
\<close>

theorem empty_group_name_is_no_group:
  "(evaluate_rules (rules s) a = Inr (Some [])
      \<longrightarrow> (\<exists>st s'. create_asset clk k a s = (Inr st, s') \<and> group_name st = None
                 \<and> dict_get (assets s') k = Some st))
   \<and> (dict_get (assets s) k = Some b \<and> evaluate_rules (rules s) b = Inr (Some [])
      \<longrightarrow> dict_get (assets (snd (process_existing_assets clk s))) k = Some b)
   \<and> (dict_get (assets s) k = Some b \<and> group_name b = Some []
        \<and> evaluate_rules (rules s) b = Inr (Some g) \<and> g \<noteq> []
        \<and> fst (process_existing_assets clk s) = Inr ()
      \<longrightarrow> (\<exists>m. reads s \<le> m
             \<and> dict_get (assets (snd (process_existing_assets clk s))) k
                 = Some (b\<lparr>group_name := Some g, updated_at := Some (clk m)\<rparr>)))
   \<and> (dict_get (assets s) k = Some cur \<and> evaluate_rules (rules s) p = Inr (Some [])
      \<longrightarrow> (\<exists>u s'. update_asset clk k p s = (Inr (Some u), s') \<and> group_name u = Some []
                 \<and> dict_get (assets s') k = Some u))"
proof (intro conjI impI)
  assume "evaluate_rules (rules s) a = Inr (Some [])"
  from create_asset_returns [OF this, of clk k]
  show "\<exists>st s'. create_asset clk k a s = (Inr st, s') \<and> group_name st = None
                 \<and> dict_get (assets s') k = Some st"
    by (auto simp: dict_get_dict_set)
next
  assume h: "dict_get (assets s) k = Some b \<and> evaluate_rules (rules s) b = Inr (Some [])"
  obtain r xs n where p: "process_assets clk (rules s) (reads s) (assets s) = (r, xs, n)"
    by (cases "process_assets clk (rules s) (reads s) (assets s)") auto
  have "dict_get xs k = Some b"
    using process_assets_entry [OF p, of k b] h by auto
  then show "dict_get (assets (snd (process_existing_assets clk s))) k = Some b"
    using process_existing_assets_unfold [OF p] by simp
next
  assume h: "dict_get (assets s) k = Some b \<and> group_name b = Some []
        \<and> evaluate_rules (rules s) b = Inr (Some g) \<and> g \<noteq> []
        \<and> fst (process_existing_assets clk s) = Inr ()"
  obtain r xs n where p: "process_assets clk (rules s) (reads s) (assets s) = (r, xs, n)"
    by (cases "process_assets clk (rules s) (reads s) (assets s)") auto
  have r: "r = Inr ()" using h process_existing_assets_unfold [OF p] by simp
  have "\<exists>m. reads s \<le> m \<and> m < n
          \<and> dict_get xs k = Some (b\<lparr>group_name := Some g, updated_at := Some (clk m)\<rparr>)"
    using process_assets_assigns [OF p [unfolded r], of k b "Some g"] h by simp
  then show "\<exists>m. reads s \<le> m
             \<and> dict_get (assets (snd (process_existing_assets clk s))) k
                 = Some (b\<lparr>group_name := Some g, updated_at := Some (clk m)\<rparr>)"
    using process_existing_assets_unfold [OF p] by auto
next
  assume h: "dict_get (assets s) k = Some cur \<and> evaluate_rules (rules s) p = Inr (Some [])"
  from update_asset_present [of s k cur p "Some []" clk] h
  show "\<exists>u s'. update_asset clk k p s = (Inr (Some u), s') \<and> group_name u = Some []
                 \<and> dict_get (assets s') k = Some u"
    by (auto simp: dict_get_dict_set)
qed

theorem empty_group_name_is_no_group_witness:
  "evaluate_rules (rules unnamed_store) sample_asset = Inr (Some [])
   \<and> map_option group_name (dict_get (assets unnamed_asset_store) ''a1'') = Some None
   \<and> map_option group_name
        (dict_get (assets (snd (process_existing_assets tick_clock unnamed_asset_store))) ''a1'')
       = Some None
   \<and> map_option group_name
        (dict_get (assets (snd (update_asset tick_clock ''a1'' sample_asset unnamed_asset_store)))
           ''a1'')
       = Some (Some [])
   \<and> map_option group_name (dict_get (assets stale_store) ''a1'') = Some (Some [])
   \<and> map_option group_name
        (dict_get (assets (snd (process_existing_assets tick_clock stale_store))) ''a1'')
       = Some (Some ''production-instances'')"
proof -
  let ?b = "sample_asset\<lparr>a_id := Some ''a1'', group_name := None,
                    created_at := Some 1, updated_at := Some 1\<rparr>"
  let ?c = "sample_asset\<lparr>a_id := Some ''a1'', group_name := Some [],
                    created_at := Some 0, updated_at := Some 1\<rparr>"
  have e1: "evaluate_rules (rules unnamed_store) sample_asset = Inr (Some [])"
    by (simp add: unnamed_store_eq unnamed_rule_def)
  have c1: "map_option group_name (dict_get (assets unnamed_asset_store) ''a1'') = Some None"
    using empty_group_name_is_no_group
      [where s = unnamed_store and a = sample_asset and clk = tick_clock and k = "''a1''",
        THEN conjunct1, THEN mp, OF e1]
    by (auto simp: unnamed_asset_store_def)
  have g2: "dict_get (assets unnamed_asset_store) ''a1'' = Some ?b"
    by (simp add: unnamed_asset_store_eq)
  have e2: "evaluate_rules (rules unnamed_asset_store) ?b = Inr (Some [])"
    by (simp add: unnamed_asset_store_eq unnamed_rule_def)
  have c2: "dict_get (assets (snd (process_existing_assets tick_clock unnamed_asset_store))) ''a1''
      = Some ?b"
    using empty_group_name_is_no_group
      [where s = unnamed_asset_store and b = ?b and clk = tick_clock and k = "''a1''",
        THEN conjunct2, THEN conjunct1, THEN mp, OF conjI, OF g2 e2]
    by simp
  have e3: "evaluate_rules (rules unnamed_asset_store) sample_asset = Inr (Some [])"
    by (simp add: unnamed_asset_store_eq unnamed_rule_def)
  have c3: "map_option group_name
        (dict_get (assets (snd (update_asset tick_clock ''a1'' sample_asset unnamed_asset_store)))
           ''a1'') = Some (Some [])"
    using empty_group_name_is_no_group
      [where s = unnamed_asset_store and cur = ?b and p = sample_asset and clk = tick_clock
         and k = "''a1''", THEN conjunct2, THEN conjunct2, THEN conjunct2, THEN mp,
        OF conjI, OF g2 e3]
    by auto
  have g4: "dict_get (assets stale_store) ''a1'' = Some ?c"
    by (simp add: stale_store_def)
  have e4: "evaluate_rules (rules stale_store) ?c = Inr (Some ''production-instances'')"
    by (simp add: stale_store_def sample_rule_def sample_asset_def cond_type_def cond_tag_def
        evaluate_condition_def)
  have r4: "fst (process_existing_assets tick_clock stale_store) = Inr ()"
    using e4 by (simp add: process_existing_assets_def stale_store_def split: prod.splits)
  have c4: "map_option group_name
        (dict_get (assets (snd (process_existing_assets tick_clock stale_store))) ''a1'')
       = Some (Some ''production-instances'')"
    using empty_group_name_is_no_group
      [where s = stale_store and b = ?c and g = "''production-instances''" and clk = tick_clock
         and k = "''a1''", THEN conjunct2, THEN conjunct2, THEN conjunct1] g4 e4 r4
    by auto
  show ?thesis using e1 c1 c2 c3 g4 c4 by simp
qed

text \<open>
  What the reprocessing pass does: it leaves the rules and the keys of the
  asset dictionary alone; it re-runs \<open>_evaluate_rules\<close> for the assets whose \<open>group_name\<close>
  is none or the empty string and for no other asset (it returns iff the evaluation
  returns for each of those); an asset with a non-empty group is left exactly as it is;
  an asset without one is left as it is when the rules give none or the empty string, and
  gets the group and a clock reading of the pass as \<open>updated_at\<close> when the rules give a
  non-empty group and the pass returns. In particular, when a rule with a non-empty group
  name is created, the call returns, and an asset without a group that no stored rule
  matches is matched by the new rule, that asset has the new rule's group name when
  \<open>create_rule\<close> returns.
\<close>

theorem reprocessing_pass_effect:
  "rules (snd (process_existing_assets clk s)) = rules s
   \<and> map fst (assets (snd (process_existing_assets clk s))) = map fst (assets s)
   \<and> (fst (process_existing_assets clk s) = Inr ()
        \<longleftrightarrow> (\<forall>p\<in>set (assets s). \<not> truthy (group_name (snd p))
               \<longrightarrow> (\<exists>g. evaluate_rules (rules s) (snd p) = Inr g)))
   \<and> (dict_get (assets s) k = Some a \<and> truthy (group_name a)
      \<longrightarrow> dict_get (assets (snd (process_existing_assets clk s))) k = Some a)
   \<and> (dict_get (assets s) k = Some a \<and> \<not> truthy (group_name a)
        \<and> evaluate_rules (rules s) a = Inr g \<and> \<not> truthy g
      \<longrightarrow> dict_get (assets (snd (process_existing_assets clk s))) k = Some a)
   \<and> (dict_get (assets s) k = Some a \<and> \<not> truthy (group_name a)
        \<and> evaluate_rules (rules s) a = Inr g \<and> truthy g
        \<and> fst (process_existing_assets clk s) = Inr ()
      \<longrightarrow> (\<exists>m. reads s \<le> m
             \<and> dict_get (assets (snd (process_existing_assets clk s))) k
                 = Some (a\<lparr>group_name := g, updated_at := Some (clk m)\<rparr>)))
   \<and> (dict_get (assets s) k = Some a \<and> \<not> truthy (group_name a)
        \<and> evaluate_rules (rules s) a = Inr None
        \<and> all_conditions a (conditions r) = Inr True \<and> rule_group_name r \<noteq> []
        \<and> (\<exists>nr. fst (create_rule clk rid r s) = Inr nr)
      \<longrightarrow> (\<exists>m. reads s < m
             \<and> dict_get (assets (snd (create_rule clk rid r s))) k
                 = Some (a\<lparr>group_name := Some (rule_group_name r),
                           updated_at := Some (clk m)\<rparr>)))"
proof -
  obtain res xs n where p: "process_assets clk (rules s) (reads s) (assets s) = (res, xs, n)"
    by (cases "process_assets clk (rules s) (reads s) (assets s)") auto
  note u = process_existing_assets_unfold [OF p]
  have c1: "rules (snd (process_existing_assets clk s)) = rules s" by simp
  have c2: "map fst (assets (snd (process_existing_assets clk s))) = map fst (assets s)"
    using u process_assets_keys [OF p] by simp
  have c3: "fst (process_existing_assets clk s) = Inr ()
        \<longleftrightarrow> (\<forall>p\<in>set (assets s). \<not> truthy (group_name (snd p))
               \<longrightarrow> (\<exists>g. evaluate_rules (rules s) (snd p) = Inr g))"
    using process_assets_returns_iff [of clk "rules s" "reads s" "assets s"] u p by simp
  have c4: "dict_get (assets (snd (process_existing_assets clk s))) k = Some a"
    if "dict_get (assets s) k = Some a \<and> truthy (group_name a)"
    using process_assets_entry [OF p, of k a] that u by auto
  have c5: "dict_get (assets (snd (process_existing_assets clk s))) k = Some a"
    if "dict_get (assets s) k = Some a \<and> \<not> truthy (group_name a)
        \<and> evaluate_rules (rules s) a = Inr g \<and> \<not> truthy g"
    using process_assets_entry [OF p, of k a] that u by auto
  have c6: "\<exists>m. reads s \<le> m
             \<and> dict_get (assets (snd (process_existing_assets clk s))) k
                 = Some (a\<lparr>group_name := g, updated_at := Some (clk m)\<rparr>)"
    if h: "dict_get (assets s) k = Some a \<and> \<not> truthy (group_name a)
        \<and> evaluate_rules (rules s) a = Inr g \<and> truthy g
        \<and> fst (process_existing_assets clk s) = Inr ()"
  proof -
    have r: "res = Inr ()" using h u by simp
    have "\<exists>m. reads s \<le> m \<and> m < n
          \<and> dict_get xs k = Some (a\<lparr>group_name := g, updated_at := Some (clk m)\<rparr>)"
      using process_assets_assigns [OF p [unfolded r], of k a g] h by simp
    then show ?thesis using u by auto
  qed
  have c7: "\<exists>m. reads s < m
             \<and> dict_get (assets (snd (create_rule clk rid r s))) k
                 = Some (a\<lparr>group_name := Some (rule_group_name r),
                           updated_at := Some (clk m)\<rparr>)"
    if h: "dict_get (assets s) k = Some a \<and> \<not> truthy (group_name a)
        \<and> evaluate_rules (rules s) a = Inr None
        \<and> all_conditions a (conditions r) = Inr True \<and> rule_group_name r \<noteq> []
        \<and> (\<exists>nr. fst (create_rule clk rid r s) = Inr nr)"
  proof -
    define nr where "nr = r\<lparr>rule_id := Some rid, rule_created_at := Some (clk (reads s)),
                       rule_updated_at := Some (clk (reads s)),
                       fields_set := [''id'', ''created_at'', ''updated_at'',
                                      ''group_name'', ''conditions'', ''description'']\<rparr>"
    define s2 where "s2 = s\<lparr>reads := Suc (reads s), rules := dict_set (rules s) rid nr\<rparr>"
    obtain res2 ys n2 where
      p2: "process_assets clk (rules s2) (reads s2) (assets s2) = (res2, ys, n2)"
      by (cases "process_assets clk (rules s2) (reads s2) (assets s2)") auto
    note u2 = process_existing_assets_unfold [OF p2]
    have cr: "create_rule clk rid r s
        = (case res2 of Inl e \<Rightarrow> Inl e | Inr x \<Rightarrow> Inr nr, s2\<lparr>assets := ys, reads := n2\<rparr>)"
      using u2 by (simp add: create_rule_def Let_def nr_def s2_def split: sum.splits)
    have r2: "res2 = Inr ()" using h cr by (cases res2) auto
    have ev: "evaluate_rules (rules s2) a = Inr (Some (rule_group_name r))"
      using evaluate_rules_dict_set_new [of "rules s" a nr rid] h
      by (simp add: s2_def nr_def)
    have "\<exists>m. reads s2 \<le> m \<and> m < n2
          \<and> dict_get ys k = Some (a\<lparr>group_name := Some (rule_group_name r),
                                    updated_at := Some (clk m)\<rparr>)"
      using process_assets_assigns [OF p2 [unfolded r2], of k a "Some (rule_group_name r)"] h ev
      by (simp add: s2_def)
    then show ?thesis using cr by (auto simp: s2_def Suc_le_eq)
  qed
  show ?thesis using c1 c2 c3 c4 c5 c6 c7 by blast
qed

theorem reprocessing_pass_effect_witness:
  "map_option group_name (dict_get (assets ungrouped_store) ''a1'') = Some None
   \<and> evaluate_rules (rules ungrouped_store) sample_asset = Inr None
   \<and> all_conditions sample_asset (conditions sample_rule) = Inr True
   \<and> rule_group_name sample_rule \<noteq> []
   \<and> (\<exists>nr. fst (create_rule tick_clock ''r1'' sample_rule ungrouped_store) = Inr nr)
   \<and> map_option group_name
        (dict_get (assets (snd (create_rule tick_clock ''r1'' sample_rule ungrouped_store))) ''a1'')
       = Some (Some ''production-instances'')
   \<and> fst (process_existing_assets tick_clock grouped_store) = Inr ()
   \<and> dict_get (assets (snd (process_existing_assets tick_clock grouped_store))) ''a1''
       = dict_get (assets grouped_store) ''a1''"
proof -
  let ?a = "sample_asset\<lparr>a_id := Some ''a1'', group_name := None,
                    created_at := Some 0, updated_at := Some 0\<rparr>"
  have g: "dict_get (assets ungrouped_store) ''a1'' = Some ?a"
    by (simp add: ungrouped_store_eq)
  have e: "evaluate_rules (rules ungrouped_store) ?a = Inr None"
    by (simp add: ungrouped_store_eq)
  have e': "evaluate_rules (rules ungrouped_store) sample_asset = Inr None"
    by (simp add: ungrouped_store_eq)
  have m: "all_conditions ?a (conditions sample_rule) = Inr True"
    by (simp add: sample_rule_def sample_asset_def cond_type_def cond_tag_def
        evaluate_condition_def)
  have m': "all_conditions sample_asset (conditions sample_rule) = Inr True"
    by (simp add: sample_rule_def sample_asset_def cond_type_def cond_tag_def
        evaluate_condition_def)
  have nm: "rule_group_name sample_rule \<noteq> []" by (simp add: sample_rule_def)
  have ret: "\<exists>nr. fst (create_rule tick_clock ''r1'' sample_rule ungrouped_store) = Inr nr"
    by (simp add: ungrouped_store_eq create_rule_def process_existing_assets_def Let_def
        sample_rule_def sample_asset_def cond_type_def cond_tag_def evaluate_condition_def
        split: prod.splits)
  have c: "map_option group_name
        (dict_get (assets (snd (create_rule tick_clock ''r1'' sample_rule ungrouped_store))) ''a1'')
       = Some (Some ''production-instances'')"
    using reprocessing_pass_effect
      [where s = ungrouped_store and k = "''a1''" and a = ?a and r = sample_rule
         and clk = tick_clock and rid = "''r1''",
        THEN conjunct2, THEN conjunct2, THEN conjunct2, THEN conjunct2, THEN conjunct2,
        THEN conjunct2] g e m nm ret
    by (auto simp: sample_rule_def)
  have gg: "dict_get (assets grouped_store) ''a1''
      = Some (sample_asset\<lparr>a_id := Some ''a1'', group_name := Some ''production-instances'',
                created_at := Some 1, updated_at := Some 1\<rparr>)"
    by (simp add: grouped_store_def create_asset_def create_rule_def init_def
        process_existing_assets_def Let_def tick_clock_def sample_rule_def sample_asset_def
        cond_type_def cond_tag_def evaluate_condition_def)
  have gs: "assets grouped_store
      = [(''a1'', sample_asset\<lparr>a_id := Some ''a1'', group_name := Some ''production-instances'',
                created_at := Some 1, updated_at := Some 1\<rparr>)]"
    by (simp add: grouped_store_def create_asset_def create_rule_def init_def
        process_existing_assets_def Let_def tick_clock_def sample_rule_def sample_asset_def
        cond_type_def cond_tag_def evaluate_condition_def)
  have p1: "fst (process_existing_assets tick_clock grouped_store) = Inr ()"
    using reprocessing_pass_effect
      [where s = grouped_store and clk = tick_clock, THEN conjunct2, THEN conjunct2,
        THEN conjunct1] gs
    by simp
  have p2: "dict_get (assets (snd (process_existing_assets tick_clock grouped_store))) ''a1''
       = dict_get (assets grouped_store) ''a1''"
    using reprocessing_pass_effect
      [where s = grouped_store and clk = tick_clock and k = "''a1''"
         and a = "sample_asset\<lparr>a_id := Some ''a1'', group_name := Some ''production-instances'',
                created_at := Some 1, updated_at := Some 1\<rparr>",
        THEN conjunct2, THEN conjunct2, THEN conjunct2, THEN conjunct1] gg
    by simp
  show ?thesis using g e' m' nm ret c p1 p2 by simp
qed

text \<open>
  A rule whose group name is the empty string: the sample asset is stored without a
  group, a rule without conditions (it matches every asset) and with the empty string as
  group name is created, and the asset still has no group: it has not acquired the rule's
  group name, which \<open>update_asset\<close> would have stored.
\<close>

lemma create_rule_empty_group_name:
  "map_option group_name (dict_get (assets ungrouped_store) ''a1'') = Some None
   \<and> all_conditions sample_asset (conditions unnamed_rule) = Inr True
   \<and> map_option group_name
        (dict_get (assets (snd (create_rule tick_clock ''r1'' unnamed_rule ungrouped_store))) ''a1'')
       = Some None
   \<and> map_option group_name
        (dict_get (assets (snd (create_rule tick_clock ''r1'' unnamed_rule ungrouped_store))) ''a1'')
       \<noteq> Some (Some (rule_group_name unnamed_rule))"
  by (simp add: ungrouped_store_def create_asset_def create_rule_def init_def
      process_existing_assets_def Let_def unnamed_rule_def)

lemma dev_store_eq:
  "dev_store =
     \<lparr>assets = [(''a0'', asset_two\<lparr>a_id := Some ''a0'', created_at := Some 0,
                                    updated_at := Some 0\<rparr>),
                (''a1'', sample_asset\<lparr>a_id := Some ''a1'', created_at := Some 1,
                                      updated_at := Some 1\<rparr>)],
      rules = [(''r0'', dev_rule\<lparr>rule_id := Some ''r0'', rule_created_at := Some 2,
                   rule_updated_at := Some 2,
                   fields_set := [''id'', ''created_at'', ''updated_at'',
                                  ''group_name'', ''conditions'', ''description'']\<rparr>)],
      reads = 3\<rparr>"
  by (simp add: dev_store_def create_asset_def create_rule_def init_def
      process_existing_assets_def Let_def dev_rule_def cond_no_value_def cond_tag_dev_def
      evaluate_condition_def tick_clock_def sample_asset_def asset_two_def)

text \<open>
  Claim C6: the pass that rule creation triggers re-runs resolution for the assets without
  a group and assigns the group when one is found, so that creating a rule after an
  ungrouped asset that it matches gives that asset the rule's group name. The code does
  not do that when the pass raises before it reaches the asset. In \<open>dev_store\<close> the
  development asset \<open>a0\<close> and the sample asset \<open>a1\<close> are stored without a group, next to
  \<open>dev_rule\<close>, whose \<open>contains\<close> condition has no \<open>value\<close>. Creating the sample rule, which
  matches \<open>a1\<close>, stores the rule and raises \<open>TypeError\<close> while the pass evaluates \<open>a0\<close>;
  \<open>a1\<close> is never reached. Afterwards \<open>_evaluate_rules\<close> on the stored \<open>a1\<close> returns the
  sample rule's group name, and \<open>a1\<close> still has no group.
\<close>

theorem create_rule_pass_aborts:
  "map_option group_name (dict_get (assets dev_store) ''a1'') = Some None
   \<and> fst (create_rule tick_clock ''r1'' sample_rule dev_store) = Inl TypeError
   \<and> map fst (rules (snd (create_rule tick_clock ''r1'' sample_rule dev_store)))
       = [''r0'', ''r1'']
   \<and> map_option
        (evaluate_rules (rules (snd (create_rule tick_clock ''r1'' sample_rule dev_store))))
        (dict_get (assets (snd (create_rule tick_clock ''r1'' sample_rule dev_store))) ''a1'')
       = Some (Inr (Some ''production-instances''))
   \<and> map_option group_name
        (dict_get (assets (snd (create_rule tick_clock ''r1'' sample_rule dev_store))) ''a1'')
       = Some None"
  by (simp add: dev_store_eq create_rule_def process_existing_assets_def Let_def
      dev_rule_def sample_rule_def cond_no_value_def cond_tag_dev_def cond_type_def
      cond_tag_def evaluate_condition_def sample_asset_def asset_two_def)

section \<open>Properties of sequences of operations\<close>

lemma dict_get_keys: "dict_get d k \<noteq> None \<longleftrightarrow> k \<in> set (map fst d)"
  by (induction d) auto

lemma stamps_ok_later:
  "stamps_ok clk s \<Longrightarrow> assets s' = assets s \<Longrightarrow> reads s \<le> reads s' \<Longrightarrow> stamps_ok clk s'"
  unfolding stamps_ok_def by (metis less_le_trans)

lemma create_asset_cases:
  obtains (raised) "snd (create_asset clk k a s) = s\<lparr>reads := Suc (reads s)\<rparr>"
  | (stored) st where
      "snd (create_asset clk k a s) = s\<lparr>reads := Suc (reads s), assets := dict_set (assets s) k st\<rparr>"
      "created_at st = Some (clk (reads s))" "updated_at st = Some (clk (reads s))"
proof (cases "evaluate_rules (rules s) a")
  case (Inl e)
  have "evaluate_rules (rules s)
          (a\<lparr>a_id := Some k, group_name := None, created_at := Some (clk (reads s)),
             updated_at := Some (clk (reads s))\<rparr>) = Inl e"
    using Inl
      evaluate_rules_fields [of "a\<lparr>a_id := Some k, group_name := None,
        created_at := Some (clk (reads s)), updated_at := Some (clk (reads s))\<rparr>" a "rules s"]
    by simp
  then have "snd (create_asset clk k a s) = s\<lparr>reads := Suc (reads s)\<rparr>"
    by (simp add: create_asset_def Let_def)
  then show ?thesis by (rule raised)
next
  case (Inr g)
  from create_asset_returns [OF Inr, of clk k] show ?thesis using stored by auto
qed

lemma update_asset_cases:
  obtains (absent) "snd (update_asset clk k p s) = s"
  | (raised) "snd (update_asset clk k p s) = s\<lparr>reads := Suc (reads s)\<rparr>"
  | (stored) cur u where "dict_get (assets s) k = Some cur"
      "snd (update_asset clk k p s) = s\<lparr>reads := Suc (reads s), assets := dict_set (assets s) k u\<rparr>"
      "created_at u = created_at cur" "updated_at u = Some (clk (reads s))"
proof (cases "dict_get (assets s) k")
  case None
  then have "snd (update_asset clk k p s) = s" by (simp add: update_asset_def)
  then show ?thesis by (rule absent)
next
  case (Some cur)
  show ?thesis
  proof (cases "evaluate_rules (rules s) p")
    case (Inl e)
    have "evaluate_rules (rules s)
          (p\<lparr>a_id := Some k, group_name := group_name cur, created_at := created_at cur,
             updated_at := Some (clk (reads s))\<rparr>) = Inl e"
      using Inl
        evaluate_rules_fields [of "p\<lparr>a_id := Some k, group_name := group_name cur,
          created_at := created_at cur, updated_at := Some (clk (reads s))\<rparr>" p "rules s"]
      by simp
    then have "snd (update_asset clk k p s) = s\<lparr>reads := Suc (reads s)\<rparr>"
      using Some by (simp add: update_asset_def Let_def)
    then show ?thesis by (rule raised)
  next
    case (Inr g)
    from update_asset_present [OF Some Inr, of clk] show ?thesis using stored Some by auto
  qed
qed

lemma create_rule_state:
  "\<exists>nr. snd (create_rule clk rid r s)
     = snd (process_existing_assets clk
              (s\<lparr>reads := Suc (reads s), rules := dict_set (rules s) rid nr\<rparr>))"
proof -
  define nr where "nr = r\<lparr>rule_id := Some rid, rule_created_at := Some (clk (reads s)),
                       rule_updated_at := Some (clk (reads s)),
                       fields_set := [''id'', ''created_at'', ''updated_at'',
                                      ''group_name'', ''conditions'', ''description'']\<rparr>"
  have "snd (create_rule clk rid r s)
     = snd (process_existing_assets clk
              (s\<lparr>reads := Suc (reads s), rules := dict_set (rules s) rid nr\<rparr>))"
    by (simp add: create_rule_def Let_def nr_def split: prod.splits sum.splits)
  then show ?thesis by blast
qed

lemma update_rule_state:
  "assets (snd (update_rule clk rid r s)) = assets s
   \<and> reads s \<le> reads (snd (update_rule clk rid r s))"
proof (cases "dict_get (rules s) rid")
  case None
  then show ?thesis by (simp add: update_rule_def)
next
  case (Some current_rule)
  show ?thesis
  proof (cases "kwargs_merge (model_dump current_rule) (model_dump_update r)")
    case (Inl e)
    then show ?thesis using Some by (simp add: update_rule_def)
  next
    case (Inr kw1)
    then have "''updated_at'' \<in> set (map key_of kw1)"
      using kwargs_merge_keeps model_dump_updated_at by blast
    then show ?thesis using Some Inr by (auto simp: update_rule_def Let_def)
  qed
qed

lemma pass_created:
  assumes "dict_get (assets s) k = Some a"
  shows "\<exists>a'. dict_get (assets (snd (process_existing_assets clk s))) k = Some a'
            \<and> created_at a' = created_at a"
proof -
  obtain r xs n where p: "process_assets clk (rules s) (reads s) (assets s) = (r, xs, n)"
    by (cases "process_assets clk (rules s) (reads s) (assets s)") auto
  from process_assets_entry [OF p assms] show ?thesis
    using process_existing_assets_unfold [OF p] by auto
qed

lemma pass_stamps:
  assumes "mono clk" "stamps_ok clk s"
  shows "stamps_ok clk (snd (process_existing_assets clk s))"
proof -
  obtain r xs n where p: "process_assets clk (rules s) (reads s) (assets s) = (r, xs, n)"
    by (cases "process_assets clk (rules s) (reads s) (assets s)") auto
  note u = process_existing_assets_unfold [OF p]
  have le: "reads s \<le> n" using process_assets_reads [OF p] .
  have "\<exists>m u. m < n \<and> created_at a' = Some (clk m) \<and> updated_at a' = Some u \<and> clk m \<le> u"
    if g: "dict_get xs k = Some a'" for k a'
  proof -
    have "k \<in> set (map fst xs)" using g dict_get_keys [of xs k] by simp
    then have "k \<in> set (map fst (assets s))" using process_assets_keys [OF p] by simp
    then obtain a where a: "dict_get (assets s) k = Some a"
      using dict_get_keys [of "assets s" k] by auto
    then obtain m0 u0 where s0: "m0 < reads s" "created_at a = Some (clk m0)"
      "updated_at a = Some u0" "clk m0 \<le> u0"
      using assms(2) unfolding stamps_ok_def by blast
    from process_assets_entry [OF p a] show ?thesis
    proof
      assume "dict_get xs k = Some a"
      then have "a' = a" using g by simp
      then show ?thesis using s0 le by (metis less_le_trans)
    next
      assume "\<not> truthy (group_name a)
        \<and> (\<exists>g m. evaluate_rules (rules s) a = Inr g \<and> truthy g \<and> reads s \<le> m \<and> m < n
              \<and> dict_get xs k = Some (a\<lparr>group_name := g, updated_at := Some (clk m)\<rparr>))"
      then obtain g' m where m: "reads s \<le> m" "m < n"
        "dict_get xs k = Some (a\<lparr>group_name := g', updated_at := Some (clk m)\<rparr>)" by blast
      have a': "a' = a\<lparr>group_name := g', updated_at := Some (clk m)\<rparr>" using m(3) g by simp
      have "m0 \<le> m" using s0(1) m(1) by simp
      then have "clk m0 \<le> clk m" using assms(1) by (simp add: monoD)
      moreover have "m0 < n" using s0(1) le by simp
      ultimately show ?thesis using a' s0 by auto
    qed
  qed
  then show ?thesis using u unfolding stamps_ok_def by simp
qed

lemma step_stamps:
  assumes "mono clk" "stamps_ok clk s"
  shows "stamps_ok clk (step clk x s)"
proof (cases x)
  case (CreateAsset k a)
  show ?thesis
  proof (cases rule: create_asset_cases [of clk k a s])
    case raised
    then show ?thesis using CreateAsset stamps_ok_later [OF assms(2)] by simp
  next
    case (stored st)
    have "stamps_ok clk (s\<lparr>reads := Suc (reads s), assets := dict_set (assets s) k st\<rparr>)"
      unfolding stamps_ok_def
    proof (intro allI impI)
      fix k' a'
      assume g: "dict_get (assets (s\<lparr>reads := Suc (reads s), assets := dict_set (assets s) k st\<rparr>)) k'
          = Some a'"
      show "\<exists>m u. m < reads (s\<lparr>reads := Suc (reads s), assets := dict_set (assets s) k st\<rparr>)
          \<and> created_at a' = Some (clk m) \<and> updated_at a' = Some u \<and> clk m \<le> u"
      proof (cases "k' = k")
        case True
        then have "a' = st" using g by (simp add: dict_get_dict_set)
        then show ?thesis using stored(2,3) by auto
      next
        case False
        then have "dict_get (assets s) k' = Some a'" using g by (simp add: dict_get_dict_set)
        then obtain m u where "m < reads s" "created_at a' = Some (clk m)"
          "updated_at a' = Some u" "clk m \<le> u"
          using assms(2) unfolding stamps_ok_def by blast
        then show ?thesis by (auto intro: less_SucI)
      qed
    qed
    then show ?thesis using CreateAsset stored(1) by simp
  qed
next
  case (UpdateAsset k p)
  show ?thesis
  proof (cases rule: update_asset_cases [of clk k p s])
    case absent
    then show ?thesis using UpdateAsset assms(2) by simp
  next
    case raised
    then show ?thesis using UpdateAsset stamps_ok_later [OF assms(2)] by simp
  next
    case (stored cur u)
    obtain m0 u0 where s0: "m0 < reads s" "created_at cur = Some (clk m0)"
      using assms(2) stored(1) unfolding stamps_ok_def by blast
    have mono0: "clk m0 \<le> clk (reads s)" using s0(1) assms(1) by (simp add: monoD)
    have "stamps_ok clk (s\<lparr>reads := Suc (reads s), assets := dict_set (assets s) k u\<rparr>)"
      unfolding stamps_ok_def
    proof (intro allI impI)
      fix k' a'
      assume g: "dict_get (assets (s\<lparr>reads := Suc (reads s), assets := dict_set (assets s) k u\<rparr>)) k'
          = Some a'"
      show "\<exists>m v. m < reads (s\<lparr>reads := Suc (reads s), assets := dict_set (assets s) k u\<rparr>)
          \<and> created_at a' = Some (clk m) \<and> updated_at a' = Some v \<and> clk m \<le> v"
      proof (cases "k' = k")
        case True
        then have "a' = u" using g by (simp add: dict_get_dict_set)
        then show ?thesis using stored(3,4) s0 mono0 by (auto intro: less_SucI)
      next
        case False
        then have "dict_get (assets s) k' = Some a'" using g by (simp add: dict_get_dict_set)
        then obtain m v where "m < reads s" "created_at a' = Some (clk m)"
          "updated_at a' = Some v" "clk m \<le> v"
          using assms(2) unfolding stamps_ok_def by blast
        then show ?thesis by (auto intro: less_SucI)
      qed
    qed
    then show ?thesis using UpdateAsset stored(2) by simp
  qed
next
  case (CreateRule k r)
  obtain nr where st: "snd (create_rule clk k r s)
     = snd (process_existing_assets clk
              (s\<lparr>reads := Suc (reads s), rules := dict_set (rules s) k nr\<rparr>))"
    using create_rule_state by blast
  have "stamps_ok clk (s\<lparr>reads := Suc (reads s), rules := dict_set (rules s) k nr\<rparr>)"
    using stamps_ok_later [OF assms(2)] by simp
  then show ?thesis using CreateRule st pass_stamps [OF assms(1)] by simp
next
  case (UpdateRule k r)
  then show ?thesis using stamps_ok_later [OF assms(2)] update_rule_state [of clk k r s] by simp
next
  case Reprocess
  then show ?thesis using pass_stamps [OF assms] by simp
qed

lemma run_stamps: "mono clk \<Longrightarrow> stamps_ok clk s \<Longrightarrow> stamps_ok clk (run clk xs s)"
  by (induction xs arbitrary: s) (auto intro: step_stamps)

lemma init_stamps: "stamps_ok clk init"
  by (simp add: stamps_ok_def init_def)

lemma step_created:
  assumes "dict_get (assets s) k = Some a"
    and "case x of CreateAsset k' p \<Rightarrow> dict_get (assets s) k' = None | other \<Rightarrow> True"
  shows "\<exists>a'. dict_get (assets (step clk x s)) k = Some a' \<and> created_at a' = created_at a"
proof (cases x)
  case (CreateAsset k' p)
  then have ne: "k \<noteq> k'" using assms by auto
  show ?thesis
  proof (cases rule: create_asset_cases [of clk k' p s])
    case raised
    then show ?thesis using CreateAsset assms(1) by simp
  next
    case (stored st)
    then show ?thesis using CreateAsset assms(1) ne by (simp add: dict_get_dict_set)
  qed
next
  case (UpdateAsset k' p)
  show ?thesis
  proof (cases rule: update_asset_cases [of clk k' p s])
    case absent
    then show ?thesis using UpdateAsset assms(1) by simp
  next
    case raised
    then show ?thesis using UpdateAsset assms(1) by simp
  next
    case (stored cur u)
    then show ?thesis using UpdateAsset assms(1) by (auto simp: dict_get_dict_set)
  qed
next
  case (CreateRule k' r)
  obtain nr where st: "snd (create_rule clk k' r s)
     = snd (process_existing_assets clk
              (s\<lparr>reads := Suc (reads s), rules := dict_set (rules s) k' nr\<rparr>))"
    using create_rule_state by blast
  show ?thesis
    using CreateRule st assms(1)
      pass_created [of "s\<lparr>reads := Suc (reads s), rules := dict_set (rules s) k' nr\<rparr>" k a clk]
    by simp
next
  case (UpdateRule k' r)
  then show ?thesis using assms(1) update_rule_state [of clk k' r s] by simp
next
  case Reprocess
  then show ?thesis using pass_created [OF assms(1)] by simp
qed

lemma run_created:
  "fresh_ids clk xs s \<Longrightarrow> dict_get (assets s) k = Some a \<Longrightarrow>
   \<exists>a'. dict_get (assets (run clk xs s)) k = Some a' \<and> created_at a' = created_at a"
proof (induction xs arbitrary: s a)
  case Nil
  then show ?case by simp
next
  case (Cons x xs)
  obtain a1 where a1: "dict_get (assets (step clk x s)) k = Some a1" "created_at a1 = created_at a"
    using step_created [OF Cons.prems(2), of x clk] Cons.prems(1) by auto
  have "fresh_ids clk xs (step clk x s)" using Cons.prems(1) by simp
  from Cons.IH [OF this a1(1)] show ?case using a1(2) by simp
qed

lemma run_append: "run clk (xs @ ys) s = run clk ys (run clk xs s)"
  by (induction xs arbitrary: s) auto

lemma fresh_ids_append:
  "fresh_ids clk (xs @ ys) s \<longleftrightarrow> fresh_ids clk xs s \<and> fresh_ids clk ys (run clk xs s)"
  by (induction xs arbitrary: s) auto

text \<open>
  Claim C8: start from the empty service and perform any sequence of calls (create asset,
  update asset, create rule, update rule, reprocessing pass), returning or raising. Every
  asset then in the store has both timestamps, with \<open>updated_at\<close> greater than or equal
  to \<open>created_at\<close>; and whatever calls follow, the asset is still stored under its id
  with the same \<open>created_at\<close>. The clock and the identifier generator are outside the
  service: the clock's readings never decrease, and no new asset receives an identifier
  that is already in use.
\<close>

theorem timestamps_invariant:
  "mono clk \<and> fresh_ids clk (xs @ ys) init
   \<longrightarrow> (\<forall>k a. dict_get (assets (run clk xs init)) k = Some a
          \<longrightarrow> (\<exists>c u. created_at a = Some c \<and> updated_at a = Some u \<and> c \<le> u)
              \<and> (\<exists>a'. dict_get (assets (run clk (xs @ ys) init)) k = Some a'
                      \<and> created_at a' = created_at a))"
proof (intro impI allI)
  fix k a
  assume h: "mono clk \<and> fresh_ids clk (xs @ ys) init"
    and g: "dict_get (assets (run clk xs init)) k = Some a"
  have "stamps_ok clk (run clk xs init)" using h run_stamps init_stamps by blast
  then have one: "\<exists>c u. created_at a = Some c \<and> updated_at a = Some u \<and> c \<le> u"
    using g unfolding stamps_ok_def by blast
  have "fresh_ids clk ys (run clk xs init)" using h fresh_ids_append by blast
  from run_created [OF this g]
  have two: "\<exists>a'. dict_get (assets (run clk (xs @ ys) init)) k = Some a'
                      \<and> created_at a' = created_at a"
    by (simp add: run_append)
  show "(\<exists>c u. created_at a = Some c \<and> updated_at a = Some u \<and> c \<le> u)
              \<and> (\<exists>a'. dict_get (assets (run clk (xs @ ys) init)) k = Some a'
                      \<and> created_at a' = created_at a)"
    using one two by blast
qed

theorem timestamps_invariant_witness:
  "mono tick_clock \<and> fresh_ids tick_clock (history @ continuation) init
   \<and> map_option created_at (dict_get (assets (run tick_clock history init)) ''a1'')
       = Some (Some 0)
   \<and> map_option updated_at (dict_get (assets (run tick_clock history init)) ''a1'')
       = Some (Some 0)
   \<and> map_option created_at
        (dict_get (assets (run tick_clock (history @ continuation) init)) ''a1'')
       = Some (Some 0)
   \<and> map_option updated_at
        (dict_get (assets (run tick_clock (history @ continuation) init)) ''a1'')
       = Some (Some 3)"
proof -
  let ?a = "sample_asset\<lparr>a_id := Some ''a1'', group_name := None,
                    created_at := Some 0, updated_at := Some 0\<rparr>"
  have m: "mono tick_clock" by (simp add: mono_def tick_clock_def)
  have h: "run tick_clock history init = ungrouped_store"
    by (simp add: history_def ungrouped_store_def)
  have g: "dict_get (assets (run tick_clock history init)) ''a1'' = Some ?a"
    by (simp add: h ungrouped_store_eq)
  have f: "fresh_ids tick_clock (history @ continuation) init"
    by (simp add: history_def continuation_def init_def)
  have u: "map_option updated_at
        (dict_get (assets (run tick_clock (history @ continuation) init)) ''a1'')
       = Some (Some 3)"
    by (simp add: history_def continuation_def init_def create_asset_def create_rule_def
        update_asset_def process_existing_assets_def Let_def tick_clock_def sample_rule_def
        sample_asset_def asset_two_def cond_type_def cond_tag_def evaluate_condition_def)
  from timestamps_invariant
    [where clk = tick_clock and xs = history and ys = continuation,
      THEN mp, OF conjI, OF m f, THEN spec, THEN spec, THEN mp, OF g]
  obtain a' where "dict_get (assets (run tick_clock (history @ continuation) init)) ''a1''
      = Some a'" "created_at a' = created_at ?a"
    by blast
  then have c: "map_option created_at
        (dict_get (assets (run tick_clock (history @ continuation) init)) ''a1'')
       = Some (Some 0)"
    by simp
  show ?thesis using m f g u c by simp
qed

end
